theory Spec2Isabelle
  imports Main "HOL-Library.Word"
begin

unbundle bit_operations_syntax

section \<open>Data model of the N64 support code\<close>

type_synonym byte = "8 word"
type_synonym u32 = "32 word"
type_synonym u64 = "64 word"

text \<open>The scoped enumerations of the source. Each has the underlying type \<open>uint32_t\<close>;
  the \<open>u32_of_\<close> functions give the enumerator values the source assigns.\<close>

datatype MemoryType = NONE | EEPROM_512 | EEPROM_2k | SRAM_32k | SRAM_96k | FLASH_128k
  | CPAK | TPAK | MemoryType_UNKNOWN

datatype DataFormat = BIG_ENDIAN | BYTE_SWAPPED | LITTLE_ENDIAN | DataFormat_UNKNOWN

datatype CIC = CIC_NUS_6101 | CIC_NUS_6102 | CIC_NUS_7101 | CIC_NUS_7102 | CIC_NUS_6103
  | CIC_NUS_7103 | CIC_NUS_6105 | CIC_NUS_7105 | CIC_NUS_6106 | CIC_NUS_7106 | CIC_NUS_8303
  | CIC_NUS_8401 | CIC_NUS_5167 | CIC_NUS_DDUS | CIC_NUS_5101 | CIC_UNKNOWN

datatype SystemType = NTSC | PAL | SystemType_UNKNOWN

datatype PadType = N64_PAD | UNPLUGGED | N64_PAD_WITH_CPAK | N64_PAD_WITH_RPAK | SNAC
  | N64_PAD_WITH_TPAK | PadType_UNKNOWN

datatype AutoDetect = AutoDetect_ON | AutoDetect_OFF

datatype AspectRatio = ORIGINAL | FULL | CUSTOM_1 | CUSTOM_2 | AspectRatio_UNKNOWN

fun u32_of_MemoryType :: "MemoryType \<Rightarrow> u32" where
  "u32_of_MemoryType NONE = 0"
| "u32_of_MemoryType EEPROM_512 = 1"
| "u32_of_MemoryType EEPROM_2k = 2"
| "u32_of_MemoryType SRAM_32k = 3"
| "u32_of_MemoryType SRAM_96k = 4"
| "u32_of_MemoryType FLASH_128k = 5"
| "u32_of_MemoryType CPAK = NOT 2"
| "u32_of_MemoryType TPAK = NOT 1"
| "u32_of_MemoryType MemoryType_UNKNOWN = NOT 0"

fun u32_of_CIC :: "CIC \<Rightarrow> u32" where
  "u32_of_CIC CIC_NUS_6101 = 0"
| "u32_of_CIC CIC_NUS_6102 = 1"
| "u32_of_CIC CIC_NUS_7101 = 2"
| "u32_of_CIC CIC_NUS_7102 = 3"
| "u32_of_CIC CIC_NUS_6103 = 4"
| "u32_of_CIC CIC_NUS_7103 = 5"
| "u32_of_CIC CIC_NUS_6105 = 6"
| "u32_of_CIC CIC_NUS_7105 = 7"
| "u32_of_CIC CIC_NUS_6106 = 8"
| "u32_of_CIC CIC_NUS_7106 = 9"
| "u32_of_CIC CIC_NUS_8303 = 10"
| "u32_of_CIC CIC_NUS_8401 = 11"
| "u32_of_CIC CIC_NUS_5167 = 12"
| "u32_of_CIC CIC_NUS_DDUS = 13"
| "u32_of_CIC CIC_NUS_5101 = 14"
| "u32_of_CIC CIC_UNKNOWN = NOT 0"

fun u32_of_SystemType :: "SystemType \<Rightarrow> u32" where
  "u32_of_SystemType NTSC = 0"
| "u32_of_SystemType PAL = 1"
| "u32_of_SystemType SystemType_UNKNOWN = NOT 0"

fun u32_of_PadType :: "PadType \<Rightarrow> u32" where
  "u32_of_PadType N64_PAD = 0"
| "u32_of_PadType UNPLUGGED = 1"
| "u32_of_PadType N64_PAD_WITH_CPAK = 2"
| "u32_of_PadType N64_PAD_WITH_RPAK = 3"
| "u32_of_PadType SNAC = 4"
| "u32_of_PadType N64_PAD_WITH_TPAK = 5"
| "u32_of_PadType PadType_UNKNOWN = NOT 0"

fun u32_of_AutoDetect :: "AutoDetect \<Rightarrow> u32" where
  "u32_of_AutoDetect AutoDetect_ON = 0"
| "u32_of_AutoDetect AutoDetect_OFF = 1"

fun u32_of_AspectRatio :: "AspectRatio \<Rightarrow> u32" where
  "u32_of_AspectRatio ORIGINAL = 0"
| "u32_of_AspectRatio FULL = 1"
| "u32_of_AspectRatio CUSTOM_1 = 2"
| "u32_of_AspectRatio CUSTOM_2 = 3"
| "u32_of_AspectRatio AspectRatio_UNKNOWN = NOT 0"

text \<open>A cast \<open>(MemoryType)v\<close> of a stored integer: \<open>None\<close> when \<open>v\<close> is the value of no
  enumerator, in which case every \<open>switch\<close> of the source takes its \<open>default\<close> branch.\<close>

definition MemoryType_of_u32 :: "u32 \<Rightarrow> MemoryType option" where
  "MemoryType_of_u32 v =
    (if v = 0 then Some NONE else if v = 1 then Some EEPROM_512 else if v = 2 then Some EEPROM_2k
     else if v = 3 then Some SRAM_32k else if v = 4 then Some SRAM_96k
     else if v = 5 then Some FLASH_128k else if v = NOT 2 then Some CPAK
     else if v = NOT 1 then Some TPAK else if v = NOT 0 then Some MemoryType_UNKNOWN
     else None)"

fun get_save_size :: "MemoryType \<Rightarrow> u32" where
  "get_save_size EEPROM_512 = 0x200"
| "get_save_size EEPROM_2k = 0x800"
| "get_save_size SRAM_32k = 0x8000"
| "get_save_size SRAM_96k = 0x18000"
| "get_save_size FLASH_128k = 0x20000"
| "get_save_size CPAK = 0x8000"
| "get_save_size TPAK = 0x8000"
| "get_save_size _ = 0"

section \<open>Host configuration options\<close>

definition AR_TYPE_OPT :: string where "AR_TYPE_OPT = ''[48:47]''"
definition AUTODETECT_OPT :: string where "AUTODETECT_OPT = ''[64]''"
definition CIC_TYPE_OPT :: string where "CIC_TYPE_OPT = ''[68:65]''"
definition NO_EPAK_OPT :: string where "NO_EPAK_OPT = ''[70]''"
definition CPAK_OPT :: string where "CPAK_OPT = ''[71]''"
definition RPAK_OPT :: string where "RPAK_OPT = ''[72]''"
definition TPAK_OPT :: string where "TPAK_OPT = ''[73]''"
definition RTC_OPT :: string where "RTC_OPT = ''[74]''"
definition SAVE_TYPE_OPT :: string where "SAVE_TYPE_OPT = ''[77:75]''"
definition SYS_TYPE_OPT :: string where "SYS_TYPE_OPT = ''[80:79]''"
definition CONTROLLER_OPTS :: "string list" where
  "CONTROLLER_OPTS = [''[51:49]'', ''[54:52]'', ''[57:55]'', ''[60:58]'']"

text \<open>Modelled from the spec: the host's persistent configuration-option store
  (\<open>user_io_status_get\<close> and \<open>user_io_status_set\<close> are declared in \<open>user_io.h\<close> and
  implemented by the host, not in \<open>n64.cpp\<close>). Options are identified by stable keys; reading a key returns the value
  last written under it.\<close>

type_synonym option_store = "string \<Rightarrow> u32"

definition user_io_status_get :: "option_store \<Rightarrow> string \<Rightarrow> u32" where
  "user_io_status_get c opt = c opt"

definition user_io_status_set :: "string \<Rightarrow> u32 \<Rightarrow> option_store \<Rightarrow> option_store" where
  "user_io_status_set opt v c = c(opt := v)"

definition get_cart_save_type :: "option_store \<Rightarrow> MemoryType" where
  "get_cart_save_type c =
    (case MemoryType_of_u32 (user_io_status_get c SAVE_TYPE_OPT) of
       Some v \<Rightarrow> (if get_save_size v \<noteq> 0 then v else NONE)
     | None \<Rightarrow> NONE)"

definition set_cart_save_type :: "MemoryType \<Rightarrow> option_store \<Rightarrow> option_store" where
  "set_cart_save_type v c =
    user_io_status_set SAVE_TYPE_OPT
      (u32_of_MemoryType (if get_save_size v \<noteq> 0 then v else NONE)) c"

definition is_auto :: "option_store \<Rightarrow> bool" where
  "is_auto c \<longleftrightarrow> user_io_status_get c AUTODETECT_OPT = u32_of_AutoDetect AutoDetect_ON"

text \<open>\<open>get_save_file_offset(idx)\<close>: \<open>idx\<close> is an \<open>unsigned char\<close>, the result a
  \<open>uint32_t\<close>.\<close>

definition get_save_file_offset :: "option_store \<Rightarrow> 8 word \<Rightarrow> u32" where
  "get_save_file_offset c idx0 =
    (let save_type = get_cart_save_type c;
         (offset1, idx1) =
            (if idx0 \<noteq> 0 \<and> save_type \<noteq> NONE then (get_save_size save_type, idx0 - 1)
             else (0, idx0));
         (offset2, idx2) =
            (if idx1 \<noteq> 0 \<and> user_io_status_get c TPAK_OPT \<noteq> 0
             then (offset1 + get_save_size TPAK, idx1 - 1)
             else (offset1, idx1))
     in offset2 + get_save_size CPAK * ucast idx2)"

section \<open>Byte-order normalizer\<close>

text \<open>\<open>*(uint32_t * )data\<close> on the little-endian target: byte 0 is the low byte.\<close>

definition u32_le :: "byte \<Rightarrow> byte \<Rightarrow> byte \<Rightarrow> byte \<Rightarrow> u32" where
  "u32_le b0 b1 b2 b3 =
     ucast b0 OR push_bit 8 (ucast b1) OR push_bit 16 (ucast b2) OR push_bit 24 (ucast b3)"

definition classify_word :: "u32 \<Rightarrow> DataFormat" where
  "classify_word val =
    (if val = 0x40123780 \<or> val = 0x40072780 \<or> val = 0x41123780 then BIG_ENDIAN
     else if val = 0x12408037 \<or> val = 0x07408027 \<or> val = 0x12418037 then BYTE_SWAPPED
     else if val = 0x80371240 \<or> val = 0x80270740 \<or> val = 0x80371241 then LITTLE_ENDIAN
     else if val AND 0xff = 0x80 then BIG_ENDIAN
     else if val AND 0xff = 0x37 \<or> val AND 0xff = 0x27 then BYTE_SWAPPED
     else if val AND 0xff = 0x40 \<or> val AND 0xff = 0x41 then LITTLE_ENDIAN
     else DataFormat_UNKNOWN)"

text \<open>\<open>detectRomFormat\<close> reads the first four bytes of the buffer. The source only calls it
  on a first chunk of 4096 bytes; a shorter buffer is answered with \<open>None\<close> here.\<close>

fun detectRomFormat :: "byte list \<Rightarrow> DataFormat option" where
  "detectRomFormat (b0 # b1 # b2 # b3 # rest) = Some (classify_word (u32_le b0 b1 b2 b3))"
| "detectRomFormat _ = None"

text \<open>The two loops of \<open>normalizeData\<close>; the first argument counts the iterations left.
  Each iteration rewrites the bytes at the cursor and advances the cursor. Where fewer
  bytes are left than an iteration reads (the source would run past the buffer), the
  model stops and leaves them.\<close>

fun swap16_loop :: "nat \<Rightarrow> byte list \<Rightarrow> byte list" where
  "swap16_loop (Suc n) (c0 # c1 # data) = c1 # c0 # swap16_loop n data"
| "swap16_loop _ data = data"

fun swap32_loop :: "nat \<Rightarrow> byte list \<Rightarrow> byte list" where
  "swap32_loop (Suc n) (c0 # c1 # c2 # c3 # data) = c3 # c2 # c1 # c0 # swap32_loop n data"
| "swap32_loop _ data = data"

text \<open>\<open>normalizeData(data, size, format)\<close>: \<open>size\<close> is a \<open>size_t\<close> of the 32-bit target,
  rounded down by \<open>size &= ~1U\<close> or \<open>size &= ~3U\<close>; the loop index advances by 2 or 4
  up to the rounded size.\<close>

definition normalizeData :: "byte list \<Rightarrow> u32 \<Rightarrow> DataFormat \<Rightarrow> byte list" where
  "normalizeData data sz format =
    (case format of
       BYTE_SWAPPED \<Rightarrow> swap16_loop (unat (sz AND NOT 1) div 2) data
     | LITTLE_ENDIAN \<Rightarrow> swap32_loop (unat (sz AND NOT 3) div 4) data
     | _ \<Rightarrow> data)"

section \<open>Program state\<close>

text \<open>An image slot of the host (\<open>get_image(idx)\<close>): not opened, or the bytes of the
  backing file.\<close>

type_synonym fileTYPE = "byte list option"

record SaveFile =
  sf_idx :: int
  sf_type :: MemoryType

text \<open>The file-scope variables of the source: the option store, the saved aspect ratio
  \<open>old_ar\<close> (held as its underlying \<open>uint32_t\<close>, since it is assigned from a cast of a
  stored option), the counter \<open>mounted_save_files\<close>, the array \<open>save_files[8]\<close> and the
  image slots behind \<open>get_image\<close>. Arrays are indexed functions; the source never indexes
  \<open>save_files\<close> at 8 or above as long as at most 8 files are mounted.\<close>

record n64_state =
  cfg :: option_store
  old_ar :: u32
  mounted_save_files :: "8 word"
  save_files :: "nat \<Rightarrow> SaveFile"
  images :: "nat \<Rightarrow> fileTYPE"

definition default_SaveFile :: SaveFile where
  "default_SaveFile = \<lparr>sf_idx = -1, sf_type = NONE\<rparr>"

section \<open>Tag and settings interpreter\<close>

text \<open>Character classes of the C library in the "C" locale.\<close>

definition isspace :: "char \<Rightarrow> bool" where
  "isspace c \<longleftrightarrow> (of_char c :: nat) = 32 \<or> (9 \<le> (of_char c :: nat) \<and> (of_char c :: nat) \<le> 13)"

definition isalnum :: "char \<Rightarrow> bool" where
  "isalnum c \<longleftrightarrow>
     (48 \<le> (of_char c :: nat) \<and> (of_char c :: nat) \<le> 57) \<or>
     (65 \<le> (of_char c :: nat) \<and> (of_char c :: nat) \<le> 90) \<or>
     (97 \<le> (of_char c :: nat) \<and> (of_char c :: nat) \<le> 122)"

definition tolower :: "char \<Rightarrow> char" where
  "tolower c =
     (if 65 \<le> (of_char c :: nat) \<and> (of_char c :: nat) \<le> 90
      then char_of ((of_char c :: nat) + 32) else c)"

definition FNV_PRIME :: u64 where "FNV_PRIME = 0x100000001b3"
definition FNV_OFFSET_BASIS :: u64 where "FNV_OFFSET_BASIS = 0xcbf29ce484222325"

text \<open>\<open>fnv_hash\<close>: the loop runs up to the terminating NUL; upper-case letters are
  folded to lower case before they are mixed in.\<close>

fun fnv_hash_from :: "string \<Rightarrow> u64 \<Rightarrow> u64" where
  "fnv_hash_from [] h = h"
| "fnv_hash_from (a # s) h =
     (if (of_char a :: nat) = 0 then h
      else fnv_hash_from s
        ((h XOR of_nat (if 65 \<le> (of_char a :: nat) \<and> (of_char a :: nat) \<le> 90
                        then (of_char a :: nat) + 32 else of_char a)) * FNV_PRIME))"

definition fnv_hash :: "string \<Rightarrow> u64" where
  "fnv_hash s = fnv_hash_from s FNV_OFFSET_BASIS"

text \<open>The successive results of \<open>strtok(tags, "| ")\<close>: the maximal runs of characters
  other than \<open>|\<close> and space. The first argument is the token being collected.\<close>

fun strtok_all :: "string \<Rightarrow> string \<Rightarrow> string list" where
  "strtok_all cur [] = (if cur = [] then [] else [cur])"
| "strtok_all cur (c # cs) =
     (if c = CHR ''|'' \<or> c = CHR '' ''
      then (if cur = [] then strtok_all [] cs else cur # strtok_all [] cs)
      else strtok_all (cur @ [c]) cs)"

record tag_state =
  save_type :: MemoryType
  system_type :: SystemType
  cic_type :: CIC
  no_epak :: bool
  cpak :: bool
  rpak :: bool
  tpak :: bool
  rtc :: bool
  wide :: bool
  prefered_pad :: PadType

definition initial_tag_state :: tag_state where
  "initial_tag_state =
    \<lparr>save_type = NONE, system_type = SystemType_UNKNOWN, cic_type = CIC_UNKNOWN,
     no_epak = False, cpak = False, rpak = False, tpak = False, rtc = False, wide = False,
     prefered_pad = N64_PAD\<rparr>"

text \<open>The body of the token loop: the \<open>switch\<close> on the hash of the token. The case
  labels of a \<open>switch\<close> are pairwise distinct, so the order of the tests is immaterial.\<close>

definition apply_tag :: "string \<Rightarrow> tag_state \<Rightarrow> tag_state" where
  "apply_tag tag t =
    (let h = fnv_hash tag in
     if h = fnv_hash ''eeprom512'' then t\<lparr>save_type := EEPROM_512\<rparr>
     else if h = fnv_hash ''eeprom2k'' then t\<lparr>save_type := EEPROM_2k\<rparr>
     else if h = fnv_hash ''sram32k'' then t\<lparr>save_type := SRAM_32k\<rparr>
     else if h = fnv_hash ''sram96k'' then t\<lparr>save_type := SRAM_96k\<rparr>
     else if h = fnv_hash ''flash128k'' then t\<lparr>save_type := FLASH_128k\<rparr>
     else if h = fnv_hash ''noepak'' then t\<lparr>no_epak := True\<rparr>
     else if h = fnv_hash ''cpak'' then
       t\<lparr>cpak := True,
         prefered_pad := (if prefered_pad t = N64_PAD then N64_PAD_WITH_CPAK else prefered_pad t)\<rparr>
     else if h = fnv_hash ''rpak'' then
       t\<lparr>rpak := True,
         prefered_pad := (if prefered_pad t = N64_PAD then N64_PAD_WITH_RPAK else prefered_pad t)\<rparr>
     else if h = fnv_hash ''tpak'' then
       t\<lparr>tpak := True,
         prefered_pad := (if prefered_pad t = N64_PAD then N64_PAD_WITH_TPAK else prefered_pad t)\<rparr>
     else if h = fnv_hash ''rtc'' then t\<lparr>rtc := True\<rparr>
     else if h = fnv_hash ''ntsc'' then t\<lparr>system_type := NTSC\<rparr>
     else if h = fnv_hash ''pal'' then t\<lparr>system_type := PAL\<rparr>
     else if h = fnv_hash ''wide'' then t\<lparr>wide := True\<rparr>
     else if h = fnv_hash ''cic6101'' then t\<lparr>cic_type := CIC_NUS_6101, system_type := NTSC\<rparr>
     else if h = fnv_hash ''cic6102'' then t\<lparr>cic_type := CIC_NUS_6102, system_type := NTSC\<rparr>
     else if h = fnv_hash ''cic6103'' then t\<lparr>cic_type := CIC_NUS_6103, system_type := NTSC\<rparr>
     else if h = fnv_hash ''cic6105'' then t\<lparr>cic_type := CIC_NUS_6105, system_type := NTSC\<rparr>
     else if h = fnv_hash ''cic6106'' then t\<lparr>cic_type := CIC_NUS_6106, system_type := NTSC\<rparr>
     else if h = fnv_hash ''cic7101'' then t\<lparr>cic_type := CIC_NUS_7101, system_type := PAL\<rparr>
     else if h = fnv_hash ''cic7102'' then t\<lparr>cic_type := CIC_NUS_7102, system_type := PAL\<rparr>
     else if h = fnv_hash ''cic7103'' then t\<lparr>cic_type := CIC_NUS_7103, system_type := PAL\<rparr>
     else if h = fnv_hash ''cic7105'' then t\<lparr>cic_type := CIC_NUS_7105, system_type := PAL\<rparr>
     else if h = fnv_hash ''cic7106'' then t\<lparr>cic_type := CIC_NUS_7106, system_type := PAL\<rparr>
     else if h = fnv_hash ''cic8303'' then t\<lparr>cic_type := CIC_NUS_8303\<rparr>
     else if h = fnv_hash ''cic8401'' then t\<lparr>cic_type := CIC_NUS_8401\<rparr>
     else if h = fnv_hash ''cic5167'' then t\<lparr>cic_type := CIC_NUS_5167\<rparr>
     else if h = fnv_hash ''cicddus'' then t\<lparr>cic_type := CIC_NUS_DDUS\<rparr>
     else if h = fnv_hash ''cic5101'' then t\<lparr>cic_type := CIC_NUS_5101\<rparr>
     else t)"

definition parse_tags :: "string \<Rightarrow> tag_state" where
  "parse_tags tags = fold apply_tag (strtok_all [] tags) initial_tag_state"

definition u32_of_bool :: "bool \<Rightarrow> u32" where
  "u32_of_bool b = (if b then 1 else 0)"

text \<open>The wide-display part of \<open>parse_and_apply_db_tags\<close> (the last statements before
  its \<open>return\<close>), on the option store and \<open>old_ar\<close>.\<close>

definition apply_wide :: "bool \<Rightarrow> n64_state \<Rightarrow> n64_state" where
  "apply_wide w s =
    (let current_ar = user_io_status_get (cfg s) AR_TYPE_OPT in
     if w then
       (let s1 = (if current_ar \<noteq> u32_of_AspectRatio FULL then s\<lparr>old_ar := current_ar\<rparr> else s)
        in s1\<lparr>cfg := user_io_status_set AR_TYPE_OPT (u32_of_AspectRatio FULL) (cfg s1)\<rparr>)
     else if current_ar = u32_of_AspectRatio FULL \<and> old_ar s \<noteq> u32_of_AspectRatio AspectRatio_UNKNOWN
     then s\<lparr>cfg := user_io_status_set AR_TYPE_OPT (old_ar s) (cfg s),
            old_ar := u32_of_AspectRatio AspectRatio_UNKNOWN\<rparr>
     else s)"

text \<open>The option writes of \<open>parse_and_apply_db_tags\<close> between the auto-detect test
  and the wide-display part, in the order of the source; \<open>sys\<close> is \<open>system_type\<close> after
  the default for a tag list that names a chip but no region.\<close>

definition write_tag_options :: "tag_state \<Rightarrow> SystemType \<Rightarrow> option_store \<Rightarrow> option_store" where
  "write_tag_options t sys c =
    (let c1 = (if sys \<noteq> SystemType_UNKNOWN
               then user_io_status_set SYS_TYPE_OPT (u32_of_SystemType sys) c
               else c);
         c2 = (if cic_type t \<noteq> CIC_UNKNOWN
               then user_io_status_set CIC_TYPE_OPT (u32_of_CIC (cic_type t)) c1
               else c1);
         c3 = user_io_status_set NO_EPAK_OPT (u32_of_bool (no_epak t)) c2;
         c4 = user_io_status_set CPAK_OPT (u32_of_bool (cpak t)) c3;
         c5 = user_io_status_set RPAK_OPT (u32_of_bool (rpak t)) c4;
         c6 = user_io_status_set TPAK_OPT (u32_of_bool (tpak t)) c5;
         c7 = user_io_status_set RTC_OPT (u32_of_bool (rtc t)) c6;
         c8 = set_cart_save_type (save_type t) c7
     in if user_io_status_get c8 (CONTROLLER_OPTS ! 0) \<noteq> u32_of_PadType SNAC
        then user_io_status_set (CONTROLLER_OPTS ! 0) (u32_of_PadType (prefered_pad t)) c8
        else c8)"

text \<open>\<open>parse_and_apply_db_tags(tags)\<close>; \<open>None\<close> is the null pointer.\<close>

definition parse_and_apply_db_tags :: "string option \<Rightarrow> n64_state \<Rightarrow> bool \<times> n64_state" where
  "parse_and_apply_db_tags tags s =
    (case tags of
       None \<Rightarrow> (False, s)
     | Some tg \<Rightarrow>
        (let t = parse_tags tg;
             sys = (if system_type t = SystemType_UNKNOWN \<and> cic_type t \<noteq> CIC_UNKNOWN
                    then NTSC else system_type t)
         in if \<not> is_auto (cfg s) then (True, s)
            else (sys \<noteq> SystemType_UNKNOWN \<and> cic_type t \<noteq> CIC_UNKNOWN,
                  apply_wide (wide t) (s\<lparr>cfg := write_tag_options t sys (cfg s)\<rparr>))))"

section \<open>Identity resolver\<close>

definition CARTID_LENGTH :: nat where "CARTID_LENGTH = 6"
definition MD5_LENGTH :: nat where "MD5_LENGTH = 16"
definition CARTID_PREFIX :: string where "CARTID_PREFIX = ''ID:''"

text \<open>\<open>md5_matches(line, md5)\<close>: the loop over \<open>MD5_LENGTH * 2\<close> positions; the end of a
  list is the terminating NUL of the C string.\<close>

fun md5_matches_loop :: "nat \<Rightarrow> string \<Rightarrow> string \<Rightarrow> bool" where
  "md5_matches_loop 0 line md5 = True"
| "md5_matches_loop (Suc i) [] md5 = False"
| "md5_matches_loop (Suc i) (c # line) [] = False"
| "md5_matches_loop (Suc i) (c # line) (m # md5) =
     (if (of_char c :: nat) = 0 \<or> m \<noteq> tolower c then False
      else md5_matches_loop i line md5)"

definition md5_matches :: "string \<Rightarrow> string \<Rightarrow> bool" where
  "md5_matches line md5 = md5_matches_loop (MD5_LENGTH * 2) line md5"

text \<open>The loop of \<open>cart_id_is_match\<close>: \<open>for (i = 0; i < CARTID_LENGTH && *lp; i++, lp++)\<close>,
  followed by \<open>return CARTID_LENGTH\<close>. \<open>cart_id\<close> is the character array of the caller.\<close>

fun cart_id_loop :: "nat \<Rightarrow> string \<Rightarrow> string \<Rightarrow> nat" where
  "cart_id_loop i [] cart_id = CARTID_LENGTH"
| "cart_id_loop i (c # lp) cart_id =
     (if i < CARTID_LENGTH \<and> (of_char c :: nat) \<noteq> 0 then
        (if i \<noteq> 0 \<and> isspace c then i
         else if c \<noteq> CHR ''_'' \<and> c \<noteq> cart_id ! i then 0
         else cart_id_loop (Suc i) lp cart_id)
      else CARTID_LENGTH)"

definition cart_id_is_match :: "string \<Rightarrow> string \<Rightarrow> nat" where
  "cart_id_is_match line cart_id =
    (if take (length CARTID_PREFIX) line \<noteq> CARTID_PREFIX then 0
     else cart_id_loop 0 (drop (length CARTID_PREFIX) line) cart_id)"

text \<open>\<open>sscanf(s, "%*[ \\t]%[^#;]", tags)\<close> of the C library: a non-empty run of blanks and
  tabs is skipped, then a non-empty run of characters other than \<open>#\<close> and \<open>;\<close> is stored.
  \<open>None\<close> stands for a result \<open>\<le> 0\<close> (nothing stored), \<open>Some tags\<close> for the result 1.\<close>

definition scan_tags :: "string \<Rightarrow> string option" where
  "scan_tags s =
    (let blank = (\<lambda>c. c = CHR '' '' \<or> c = CHR 0x09);
         rest = dropWhile blank s;
         tags = takeWhile (\<lambda>c. c \<noteq> CHR ''#'' \<and> c \<noteq> CHR '';'') rest
     in if takeWhile blank s = [] \<or> tags = [] then None else Some tags)"

text \<open>The line loop of \<open>detect_rom_settings_in_db\<close>, over the lines that
  \<open>FileReadLine\<close> delivers.\<close>

fun db_scan_md5 :: "string \<Rightarrow> string list \<Rightarrow> n64_state \<Rightarrow> 8 word \<times> n64_state" where
  "db_scan_md5 lookup_hash [] s = (0, s)"
| "db_scan_md5 lookup_hash (line # rest) s =
     (if \<not> md5_matches line lookup_hash then db_scan_md5 lookup_hash rest s
      else
        (case scan_tags (drop (MD5_LENGTH * 2) line) of
           None \<Rightarrow> (2, s)
         | Some tags \<Rightarrow>
             (let (ok, s') = parse_and_apply_db_tags (Some tags) s
              in (if ok then 3 else 2, s'))))"

text \<open>A knowledge-base file as the text reader presents it: \<open>None\<close> when
  \<open>FileOpenTextReader\<close> fails, otherwise its lines.\<close>

type_synonym db_files = "string \<Rightarrow> string list option"

definition detect_rom_settings_in_db ::
  "db_files \<Rightarrow> string \<Rightarrow> string \<Rightarrow> n64_state \<Rightarrow> 8 word \<times> n64_state" where
  "detect_rom_settings_in_db dbs lookup_hash db_file_name s =
    (case dbs db_file_name of
       None \<Rightarrow> (0, s)
     | Some lines \<Rightarrow> db_scan_md5 lookup_hash lines s)"

text \<open>The C string at \<open>line + n\<close>. Up to the terminating NUL of the line (\<open>n\<close> at most
  the length) it is the rest of the line. Behind the terminator the source reads memory
  that the line does not determine (the text reader's buffer); what is found there is the
  parameter \<open>behind\<close>, a function of the line and the offset.\<close>

type_synonym line_memory = "string \<Rightarrow> nat \<Rightarrow> string"

definition string_at :: "line_memory \<Rightarrow> string \<Rightarrow> nat \<Rightarrow> string" where
  "string_at behind line n = (if n \<le> length line then drop n line else behind line n)"

text \<open>The line loop of \<open>detect_rom_settings_in_db_with_cartid\<close>. The tag field is the
  string at \<open>line + strlen(CARTID_PREFIX) + i\<close>, which lies behind the terminator when
  \<open>cart_id_is_match\<close> returns \<open>CARTID_LENGTH\<close> for a line that ends before six pattern
  positions.\<close>

fun db_scan_cartid ::
  "line_memory \<Rightarrow> string \<Rightarrow> string list \<Rightarrow> n64_state \<Rightarrow> 8 word \<times> n64_state" where
  "db_scan_cartid behind cart_id [] s = (0, s)"
| "db_scan_cartid behind cart_id (line # rest) s =
     (let i = cart_id_is_match line cart_id in
      if i = 0 then db_scan_cartid behind cart_id rest s
      else
        (case scan_tags (string_at behind line (length CARTID_PREFIX + i)) of
           None \<Rightarrow> (2, s)
         | Some tags \<Rightarrow>
             (let (ok, s') = parse_and_apply_db_tags (Some tags) s
              in (if ok then 3 else 2, s'))))"

definition detect_rom_settings_in_db_with_cartid ::
  "line_memory \<Rightarrow> db_files \<Rightarrow> string \<Rightarrow> string \<Rightarrow> n64_state \<Rightarrow> 8 word \<times> n64_state" where
  "detect_rom_settings_in_db_with_cartid behind dbs cart_id db_file_name s =
    (case dbs db_file_name of
       None \<Rightarrow> (0, s)
     | Some lines \<Rightarrow> db_scan_cartid behind cart_id lines s)"

definition DB_FILE_NAMES :: "string list" where
  "DB_FILE_NAMES = [''N64-database_user.txt'', ''N64-database.txt'']"

text \<open>The loops over \<open>DB_FILE_NAMES\<close>: the first file with a non-zero result wins.\<close>

fun first_detected ::
  "(string \<Rightarrow> n64_state \<Rightarrow> 8 word \<times> n64_state) \<Rightarrow> string list \<Rightarrow> n64_state \<Rightarrow> 8 word \<times> n64_state" where
  "first_detected f [] s = (0, s)"
| "first_detected f (name # names) s =
     (let (detected, s') = f name s in
      if detected \<noteq> 0 then (detected, s') else first_detected f names s')"

definition detect_rom_settings_in_dbs_with_md5 ::
  "db_files \<Rightarrow> string \<Rightarrow> n64_state \<Rightarrow> 8 word \<times> n64_state" where
  "detect_rom_settings_in_dbs_with_md5 dbs lookup_hash s =
    first_detected (detect_rom_settings_in_db dbs lookup_hash) DB_FILE_NAMES s"

definition detect_rom_settings_in_dbs_with_cartid ::
  "line_memory \<Rightarrow> db_files \<Rightarrow> string \<Rightarrow> n64_state \<Rightarrow> 8 word \<times> n64_state" where
  "detect_rom_settings_in_dbs_with_cartid behind dbs lookup_id s =
    (if \<not> list_all isalnum (take CARTID_LENGTH lookup_id) then (0, s)
     else first_detected (detect_rom_settings_in_db_with_cartid behind dbs lookup_id)
            DB_FILE_NAMES s)"

definition hex_to_dec :: "char \<Rightarrow> nat" where
  "hex_to_dec x =
    (let n = (of_char x :: nat) in
     if 48 \<le> n \<and> n \<le> 57 then n - 48
     else if 65 \<le> n \<and> n \<le> 70 then n - 65 + 10
     else if 97 \<le> n \<and> n \<le> 102 then n - 97 + 10
     else 0)"

text \<open>One round of the loop over \<open>CONTROLLER_OPTS\<close> in \<open>detect_homebrew_header\<close>.\<close>

definition homebrew_controller :: "byte list \<Rightarrow> nat \<Rightarrow> option_store \<Rightarrow> option_store" where
  "homebrew_controller controller_settings c_idx c =
    (let c_opt = CONTROLLER_OPTS ! c_idx; v = controller_settings ! c_idx in
     if v \<noteq> 0 \<and> user_io_status_get c c_opt \<noteq> u32_of_PadType SNAC then
       (if v < 0x80 then
          user_io_status_set c_opt
            (u32_of_PadType
              (if v = 0x01 then N64_PAD_WITH_RPAK
               else if v = 0x02 then N64_PAD_WITH_CPAK
               else if v = 0x03 \<and> c_idx = 0 then N64_PAD_WITH_TPAK
               else N64_PAD)) c
        else if v = 0xff then user_io_status_set c_opt (u32_of_PadType UNPLUGGED) c
        else c)
     else c)"

text \<open>\<open>detect_homebrew_header(controller_settings, cart_id)\<close>; \<open>controller_settings\<close> has
  four bytes, \<open>cart_id\<close> six characters.\<close>

definition detect_homebrew_header :: "byte list \<Rightarrow> string \<Rightarrow> n64_state \<Rightarrow> bool \<times> n64_state" where
  "detect_homebrew_header controller_settings cart_id s =
    (if cart_id ! 1 \<noteq> CHR ''E'' \<or> cart_id ! 2 \<noteq> CHR ''D'' then (False, s)
     else if \<not> is_auto (cfg s) then (False, s)
     else
       (let k = hex_to_dec (cart_id ! 4);
            c1 = set_cart_save_type
                   (if k = 1 then EEPROM_512 else if k = 2 then EEPROM_2k
                    else if k = 3 then SRAM_32k else if k = 4 then SRAM_96k
                    else if k = 5 then FLASH_128k else NONE) (cfg s);
            c2 = user_io_status_set RTC_OPT (of_nat (hex_to_dec (cart_id ! 5)) AND 1) c1;
            c3 = user_io_status_set RPAK_OPT
                   (u32_of_bool (\<exists>i \<in> {0, 1, 2, 3}. controller_settings ! i = 0x01)) c2;
            c4 = user_io_status_set CPAK_OPT
                   (u32_of_bool (\<exists>i \<in> {0, 1, 2, 3}. controller_settings ! i = 0x02)) c3;
            c5 = user_io_status_set TPAK_OPT
                   (u32_of_bool (\<exists>i \<in> {0, 1, 2, 3}. controller_settings ! i = 0x03)) c4;
            c6 = fold (homebrew_controller controller_settings) [0, 1, 2, 3] c5
        in (True, s\<lparr>cfg := c6\<rparr>)))"

text \<open>The labelled signatures of the \<open>switch\<close> in
  \<open>detect_rom_settings_from_first_chunk\<close>: the region and chip a known signature
  yields under the current region, \<open>None\<close> for the \<open>default\<close> label.\<close>

definition signature_case :: "u64 \<Rightarrow> SystemType \<Rightarrow> (SystemType \<times> CIC) option" where
  "signature_case sg sys =
    (if sg = 0x000000a316adc55a \<or> sg = 0x000000a30dacd530 \<or> sg = 0x000000039c981107
        \<or> sg = 0x000000d2828281b0 \<or> sg = 0x000000d2be3c4486 \<or> sg = 0x0000009acc31e644
        \<or> sg = 0x0000009474732e6b
     then Some (sys, if sys \<noteq> PAL then CIC_NUS_6102 else CIC_NUS_7101)
     else if sg = 0x000000a405397b05 \<or> sg = 0x000000a3fc388adb then Some (PAL, CIC_NUS_7102)
     else if sg = 0x000000a0f26f62fe \<or> sg = 0x000000a0e96e72d4 then Some (NTSC, CIC_NUS_6101)
     else if sg = 0x000000a9229d7c45 \<or> sg = 0x000000a9199c8c1b \<or> sg = 0x000000271316d406
     then Some (sys, if sys \<noteq> PAL then CIC_NUS_6103 else CIC_NUS_7103)
     else if sg = 0x000000f8b860ed00 \<or> sg = 0x000000f8af5ffcd6
     then Some (sys, if sys \<noteq> PAL then CIC_NUS_6105 else CIC_NUS_7105)
     else if sg = 0x000000ba5ba4b8cd
     then Some (sys, if sys \<noteq> PAL then CIC_NUS_6106 else CIC_NUS_7106)
     else if sg = 0x0000012daafc8aab then Some (sys, CIC_NUS_5167)
     else if sg = 0x000000a9df4b39e1 then Some (sys, CIC_NUS_8303)
     else if sg = 0x000000aa764e39e1 then Some (sys, CIC_NUS_8401)
     else if sg = 0x000000abb0b739e1 then Some (sys, CIC_NUS_DDUS)
     else if sg = 0x00000081ce470326 \<or> sg = 0x000000827a47195a \<or> sg = 0x00000082551e4848
     then Some (sys, CIC_NUS_5101)
     else None)"

text \<open>The \<open>do ... while (cic == CIC::UNKNOWN)\<close> loop: \<open>n\<close> signatures are left to try,
  \<open>signatures\<close> is the array from the cursor on. On the \<open>default\<close> label, \<open>--n\<close> decides
  between advancing the cursor and falling through to the first label with
  \<open>is_known_cic = false\<close>. The result is the region, the chip and \<open>is_known_cic\<close>.\<close>

fun cic_loop :: "nat \<Rightarrow> u64 list \<Rightarrow> SystemType \<Rightarrow> SystemType \<times> CIC \<times> bool" where
  "cic_loop n [] sys = (sys, if sys \<noteq> PAL then CIC_NUS_6102 else CIC_NUS_7101, False)"
| "cic_loop n (sg # signatures) sys =
     (case signature_case sg sys of
        Some (sys', cic) \<Rightarrow> (sys', cic, True)
      | None \<Rightarrow>
          (if n - 1 \<noteq> 0 then cic_loop (n - 1) signatures sys
           else (sys, if sys \<noteq> PAL then CIC_NUS_6102 else CIC_NUS_7101, False)))"

definition region_of_code :: "char \<Rightarrow> SystemType" where
  "region_of_code region_code =
    (if region_code \<in> set ''DFHILPSUWXYZ'' then PAL else NTSC)"

text \<open>\<open>detect_rom_settings_from_first_chunk(region_code, signatures)\<close>.\<close>

definition detect_rom_settings_from_first_chunk ::
  "char \<Rightarrow> u64 list \<Rightarrow> n64_state \<Rightarrow> bool \<times> n64_state" where
  "detect_rom_settings_from_first_chunk region_code signatures s =
    (let (sys, cic, is_known_cic) = cic_loop 2 signatures (region_of_code region_code)
     in if \<not> is_auto (cfg s) then (True, s)
        else
          (is_known_cic,
           s\<lparr>cfg := user_io_status_set CIC_TYPE_OPT (u32_of_CIC cic)
                     (user_io_status_set SYS_TYPE_OPT (u32_of_SystemType sys) (cfg s))\<rparr>))"

text \<open>\<open>(uint32_t * )buf\<close>: the buffer read as little-endian 32-bit words.\<close>

fun u32_words :: "byte list \<Rightarrow> u32 list" where
  "u32_words (b0 # b1 # b2 # b3 # rest) = u32_le b0 b1 b2 b3 # u32_words rest"
| "u32_words _ = []"

text \<open>The accumulation \<open>sum += ((uint32_t * )buf)[i]\<close> over consecutive words, in
  64 bits.\<close>

definition add_words :: "u64 \<Rightarrow> u32 list \<Rightarrow> u64" where
  "add_words sum0 ws = fold (\<lambda>w acc. acc + ucast w) ws sum0"

text \<open>\<open>calc_bootcode_checksums(bootcode_sums, buf)\<close>: the first loop runs over the words
  \<open>0x40 / 4\<close> up to \<open>0xc00 / 4\<close> and its sum goes to \<open>bootcode_sums[1]\<close>; the second loop
  continues with the same sum up to \<open>0x1000 / 4\<close> and its sum goes to
  \<open>bootcode_sums[0]\<close>. The result is the array \<open>[bootcode_sums[0], bootcode_sums[1]]\<close>.\<close>

definition calc_bootcode_checksums :: "byte list \<Rightarrow> u64 list" where
  "calc_bootcode_checksums buf =
    (let ws = u32_words buf;
         sum1 = add_words 0 (take (0xc00 div 4 - 0x40 div 4) (drop (0x40 div 4) ws));
         sum0 = add_words sum1 (take (0x1000 div 4 - 0xc00 div 4) (drop (0xc00 div 4) ws))
     in [sum0, sum1])"

section \<open>Save-memory address space\<close>

text \<open>Modelled from the spec: the storage collaborator (\<open>fileTYPE\<close>, \<open>get_image\<close>,
  \<open>FileSeek\<close>, \<open>FileReadAdv\<close>, \<open>FileWriteAdv\<close> are implemented by the host, not in
  \<open>n64.cpp\<close>). An image
  slot is either not opened (\<open>None\<close>: size 0, seeking fails) or holds the bytes of its
  backing file. Reading delivers the bytes at the position into the front of the buffer
  and returns their count; writing replaces the bytes at the position, growing the file
  with zeros when the position lies beyond its end.\<close>

definition file_size :: "fileTYPE \<Rightarrow> nat" where
  "file_size f = (case f of None \<Rightarrow> 0 | Some d \<Rightarrow> length d)"

definition FileSeek :: "fileTYPE \<Rightarrow> int \<Rightarrow> bool" where
  "FileSeek f pos \<longleftrightarrow> f \<noteq> None \<and> 0 \<le> pos"

definition FileReadAdv :: "fileTYPE \<Rightarrow> int \<Rightarrow> byte list \<Rightarrow> nat \<Rightarrow> nat \<times> byte list" where
  "FileReadAdv f pos buffer len =
    (case f of
       None \<Rightarrow> (0, buffer)
     | Some d \<Rightarrow>
         (let got = take (min len (length buffer)) (drop (nat pos) d)
          in (length got, got @ drop (length got) buffer)))"

definition FileWriteAdv :: "fileTYPE \<Rightarrow> int \<Rightarrow> byte list \<Rightarrow> nat \<Rightarrow> nat \<times> fileTYPE" where
  "FileWriteAdv f pos buffer len =
    (case f of
       None \<Rightarrow> (0, None)
     | Some d \<Rightarrow>
         (let put = take len buffer;
              padded = d @ replicate (nat pos - length d) 0
          in (length put, Some (take (nat pos) padded @ put @ drop (nat pos + length put) padded))))"

definition unmount_all_save_files :: "n64_state \<Rightarrow> n64_state" where
  "unmount_all_save_files s =
    s\<lparr>images := (\<lambda>i. if i < 8 then None else images s i),
      save_files := (\<lambda>i. if i < 8 then default_SaveFile else save_files s i),
      mounted_save_files := 0\<rparr>"

text \<open>\<open>mount_save_file(name, type, old_path)\<close>. The construction of the path and
  \<open>create_if_missing\<close> act on the file system only; their outcome is the parameter
  \<open>backing\<close>, the image that \<open>user_io_file_mount\<close> opens for the slot, together with the
  flag telling whether the file was newly created. The registry update is
  \<open>idx = mounted_save_files++; save_files[idx] = *save_file\<close>.\<close>

definition mount_save_file ::
  "(nat \<Rightarrow> MemoryType \<Rightarrow> bool \<times> fileTYPE) \<Rightarrow> MemoryType \<Rightarrow> n64_state \<Rightarrow> bool \<times> n64_state" where
  "mount_save_file backing type s =
    (let idx = mounted_save_files s;
         (is_new, img) = backing (unat idx) type
     in (is_new,
         s\<lparr>mounted_save_files := idx + 1,
           images := (images s)(unat idx := img),
           save_files := (save_files s)(unat idx := \<lparr>sf_idx = uint idx, sf_type = type\<rparr>)\<rparr>))"

text \<open>The mount stage of \<open>n64_rom_tx\<close> (after detection): the save-type region if one
  is configured, then the first pak slot (transfer pak before controller pak), then
  three more controller paks. The result carries \<open>do_reset\<close>.\<close>

definition mount_all ::
  "(nat \<Rightarrow> MemoryType \<Rightarrow> bool \<times> fileTYPE) \<Rightarrow> n64_state \<Rightarrow> bool \<times> n64_state" where
  "mount_all backing s =
    (let save_type = get_cart_save_type (cfg s);
         (r1, s1) = (if save_type \<noteq> NONE then mount_save_file backing save_type s
                     else (False, s));
         use_cpak = (user_io_status_get (cfg s1) CPAK_OPT \<noteq> 0);
         use_tpak = (user_io_status_get (cfg s1) TPAK_OPT \<noteq> 0);
         (r2, s2) = (if use_tpak \<or> use_cpak
                     then mount_save_file backing (if use_tpak then TPAK else CPAK) s1
                     else (False, s1));
         (r3, s3) = (if use_cpak then mount_save_file backing CPAK s2 else (False, s2));
         (r4, s4) = (if use_cpak then mount_save_file backing CPAK s3 else (False, s3));
         (r5, s5) = (if use_cpak then mount_save_file backing CPAK s4 else (False, s4))
     in (r1 \<or> r2 \<or> r3 \<or> r4 \<or> r5, s5))"

text \<open>The region lookup shared by the read and the write path:
  \<open>while (pos >= get_save_file_offset(file_idx + 1)) { file_idx++; if (file_idx >=
  mounted_save_files) { invalid = 1; break; } }\<close>. \<open>pos\<close> is an \<open>int64_t\<close>, compared
  with the \<open>uint32_t\<close> offset as signed 64-bit values; \<open>file_idx\<close> is an
  \<open>unsigned char\<close>. The result is the final \<open>file_idx\<close> and \<open>invalid\<close>.\<close>

function locate_save_file :: "option_store \<Rightarrow> 8 word \<Rightarrow> u64 \<Rightarrow> 8 word \<Rightarrow> 8 word \<times> bool" where
  "locate_save_file c mounted pos file_idx =
    (if uint (get_save_file_offset c (file_idx + 1)) \<le> sint pos
     then (if file_idx + 1 \<ge> mounted then (file_idx + 1, True)
           else locate_save_file c mounted pos (file_idx + 1))
     else (file_idx, False))"
  by pat_completeness auto
termination
proof (relation "measure (\<lambda>(c, mounted, pos, file_idx). unat (mounted - 1 - file_idx))")
  show "wf (measure (\<lambda>(c, mounted, pos, file_idx). unat (mounted - 1 - file_idx)))"
    by simp
next
  fix c :: option_store and mounted :: "8 word" and pos :: u64 and file_idx :: "8 word"
  assume a: "\<not> mounted \<le> file_idx + 1"
  define x where "x = mounted - 1 - file_idx"
  have "x \<noteq> 0"
  proof
    assume "x = 0"
    then have "mounted - 1 = file_idx" by (simp add: x_def)
    then have "mounted = file_idx + 1" by (metis diff_add_cancel)
    with a show False by simp
  qed
  then have "unat (x - 1) < unat x"
    by (simp add: unat_minus_one unat_gt_0)
  moreover have "mounted - 1 - (file_idx + 1) = x - 1"
    by (simp add: x_def)
  ultimately show "((c, mounted, pos, file_idx + 1), (c, mounted, pos, file_idx))
      \<in> measure (\<lambda>(c, mounted, pos, file_idx). unat (mounted - 1 - file_idx))"
    by (simp add: x_def)
qed

declare locate_save_file.simps [simp del]

definition is_pak :: "MemoryType \<Rightarrow> bool" where
  "is_pak t \<longleftrightarrow> t = CPAK \<or> t = TPAK"

text \<open>\<open>n64_load_savedata\<close>. The result is the state (unchanged), the new \<open>buffer_lba\<close>,
  the buffer, and the block handed to the transport by \<open>spi_block_write(buffer, fio_size,
  sz)\<close>, the first \<open>sz\<close> bytes of the buffer.\<close>

definition n64_load_savedata ::
  "n64_state \<Rightarrow> u64 \<Rightarrow> byte list \<Rightarrow> u32 \<Rightarrow> u32 \<Rightarrow> u32 \<Rightarrow> u64 \<times> byte list \<times> byte list" where
  "n64_load_savedata s lba buffer buffer_size blksz sz =
    (let pos = lba * ucast blksz;
         (file_idx, invalid) = locate_save_file (cfg s) (mounted_save_files s) pos 0;
         buffer_lba1 = (if invalid then lba else - 1);
         file = images s (unat file_idx);
         pos1 = sint pos - uint (get_save_file_offset (cfg s) file_idx);
         (n, buffer1) =
            (if \<not> invalid \<and> file_size file \<noteq> 0 \<and> FileSeek file pos1
             then FileReadAdv file pos1 buffer (unat buffer_size)
             else (0, buffer));
         done = (n \<noteq> 0);
         buffer_lba2 = (if done then lba else buffer_lba1);
         buffer2 =
            (if \<not> done \<or> invalid
             then replicate (unat buffer_size) 0 @ drop (unat buffer_size) buffer1
             else if is_pak (sf_type (save_files s (unat file_idx)))
             then normalizeData buffer1 sz LITTLE_ENDIAN
             else buffer1)
     in (buffer_lba2, buffer2, take (unat sz) buffer2))"

text \<open>\<open>n64_save_savedata\<close>. \<open>inbound\<close> is the block that \<open>spi_block_read(buffer,
  fio_size, sz)\<close> fetches from the transport into the front of the buffer. The result is
  the new state, \<open>buffer_lba\<close>, the buffer, and the number of bytes taken from the
  transport.\<close>

definition n64_save_savedata ::
  "n64_state \<Rightarrow> u64 \<Rightarrow> byte list \<Rightarrow> u32 \<Rightarrow> u32 \<Rightarrow> byte list
     \<Rightarrow> n64_state \<times> u64 \<times> byte list \<times> nat" where
  "n64_save_savedata s lba buffer blksz sz inbound =
    (let pos = lba * ucast blksz;
         (file_idx, invalid) = locate_save_file (cfg s) (mounted_save_files s) pos 0;
         fetched = take (unat sz) inbound;
         buffer1 = fetched @ drop (length fetched) buffer
     in if invalid then (s, - 1, buffer1, length fetched)
        else
          (let file = images s (unat file_idx);
               pos1 = sint pos - uint (get_save_file_offset (cfg s) file_idx)
           in if sz \<noteq> 0 \<and> FileSeek file pos1
              then
                (let buffer2 =
                       (if is_pak (sf_type (save_files s (unat file_idx)))
                        then normalizeData buffer1 sz LITTLE_ENDIAN else buffer1);
                     (n, file') = FileWriteAdv file pos1 buffer2 (unat sz)
                 in (s\<lparr>images := (images s)(unat file_idx := file')\<rparr>, - 1, buffer2,
                     length fetched))
              else (s, - 1, buffer1, length fetched)))"

section \<open>ROM transfer\<close>

text \<open>The chunks that the transfer loop of \<open>n64_rom_tx\<close> reads: 4096 bytes each, the
  last one possibly shorter.\<close>

function rom_chunks :: "byte list \<Rightarrow> byte list list" where
  "rom_chunks rom = (if rom = [] then [] else take 4096 rom # rom_chunks (drop 4096 rom))"
  by pat_completeness auto
termination
  by (relation "measure length") auto

declare rom_chunks.simps [simp del]

definition char_of_byte :: "byte \<Rightarrow> char" where
  "char_of_byte b = char_of (unat b)"

definition hex_digit :: "nat \<Rightarrow> char" where
  "hex_digit n = (if n < 10 then char_of (48 + n) else char_of (55 + n))"

text \<open>The cart id formed from the first chunk: the four characters at \<open>0x3b\<close>, with
  \<open>?\<close> for a character that is not alphanumeric, followed by the revision byte at
  \<open>0x3f\<close> printed as \<open>%02X\<close>; six NUL characters when all four are \<open>?\<close>.\<close>

definition make_cart_id :: "byte list \<Rightarrow> string" where
  "make_cart_id buf =
    (let code = map (\<lambda>i. if isalnum (char_of_byte (buf ! i)) then char_of_byte (buf ! i)
                            else CHR ''?'') [0x3b, 0x3c, 0x3d, 0x3e]
     in if code \<noteq> ''????''
        then code @ [hex_digit (unat (buf ! 0x3f) div 16), hex_digit (unat (buf ! 0x3f) mod 16)]
        else replicate CARTID_LENGTH (CHR 0x00))"

text \<open>The values \<open>n64_rom_tx\<close> keeps from the first chunk.\<close>

record first_chunk_info =
  controller_settings :: "byte list"
  bootcode_sums :: "u64 list"
  cart_id :: string

text \<open>The initial values of those variables, kept when the file is empty and the loop
  body never runs (\<open>controller_settings\<close> is uninitialised in the source).\<close>

definition initial_info :: first_chunk_info where
  "initial_info =
    \<lparr>controller_settings = [0, 0, 0, 0], bootcode_sums = [0, 0],
     cart_id = [CHR 0x00, CHR 0x00, CHR 0x00, CHR 0x00, CHR ''0'', CHR ''0'']\<rparr>"

definition first_chunk_info_of :: "byte list \<Rightarrow> first_chunk_info" where
  "first_chunk_info_of buf =
    \<lparr>controller_settings = take 4 (drop 0x34 buf),
     bootcode_sums = calc_bootcode_checksums buf,
     cart_id = make_cart_id buf\<rparr>"

text \<open>The part of \<open>n64_rom_tx\<close> after the transfer loop, up to \<open>printf("Done.")\<close>:
  \<open>detected\<close> is \<open>rom_settings_detected\<close> as the header-hash lookup left it, \<open>md5_hex\<close> the
  hash of the whole file.\<close>

definition resolve_after_stream ::
  "line_memory \<Rightarrow> db_files \<Rightarrow> string \<Rightarrow> first_chunk_info \<Rightarrow> 8 word \<Rightarrow> n64_state
     \<Rightarrow> 8 word \<times> n64_state" where
  "resolve_after_stream behind dbs md5_hex info detected s =
    (let (d1, s1) = (if detected = 0 then detect_rom_settings_in_dbs_with_md5 dbs md5_hex s
                     else (detected, s))
     in if d1 = 0 then
          (let (d2, s2) = detect_rom_settings_in_dbs_with_cartid behind dbs (cart_id info) s1;
               (d3, s3) =
                 (if d2 = 0 then
                    (let (hb, sh) = detect_homebrew_header (controller_settings info) (cart_id info) s2
                     in if hb then (2, sh)
                        else if is_auto (cfg sh) then
                          (let sa = (if old_ar sh \<noteq> u32_of_AspectRatio AspectRatio_UNKNOWN
                                     then sh\<lparr>cfg := user_io_status_set AR_TYPE_OPT (old_ar sh) (cfg sh),
                                             old_ar := u32_of_AspectRatio AspectRatio_UNKNOWN\<rparr>
                                     else sh)
                           in (d2, sa\<lparr>cfg :=
                                 set_cart_save_type NONE
                                   (user_io_status_set RTC_OPT 0
                                     (user_io_status_set TPAK_OPT 0
                                       (user_io_status_set RPAK_OPT 0
                                         (user_io_status_set CPAK_OPT 0
                                           (user_io_status_set NO_EPAK_OPT 0 (cfg sa))))))\<rparr>))
                        else (d2, sh))
                  else (d2, s2))
           in if d3 = 0 \<or> d3 = 2 then
                (let (ok, s4) = detect_rom_settings_from_first_chunk (cart_id info ! 3)
                                  (bootcode_sums info) s3
                 in (if ok then d3 OR 1 else d3, s4))
              else (d3, s3))
        else if d1 = 2 then
          (let (ok, s4) = detect_rom_settings_from_first_chunk (cart_id info ! 3)
                            (bootcode_sums info) s1
           in (if ok then 3 else d1, s4))
        else (d1, s1))"

text \<open>The detection part of \<open>n64_rom_tx\<close> for an N64 image. \<open>md5_hex\<close> is the external
  hashing primitive together with \<open>md5_to_hex\<close>: it maps the bytes fed to the MD5 context
  to the 32 lower-case hex characters; \<open>behind\<close> is the memory behind the lines of the
  knowledge-base files. The result is \<open>None\<close> when the first chunk is
  shorter than 4096 bytes and the load is rejected, otherwise \<open>rom_settings_detected\<close> and
  the state.\<close>

definition n64_rom_tx_detect ::
  "(byte list \<Rightarrow> string) \<Rightarrow> line_memory \<Rightarrow> db_files \<Rightarrow> byte list \<Rightarrow> n64_state
     \<Rightarrow> (8 word \<times> n64_state) option" where
  "n64_rom_tx_detect md5_hex behind dbs rom s =
    (let s0 = unmount_all_save_files s in
     case rom_chunks rom of
       [] \<Rightarrow> Some (resolve_after_stream behind dbs (md5_hex []) initial_info 0 s0)
     | first # rest \<Rightarrow>
         (case (if length first < 4096 then None else detectRomFormat first) of
            None \<Rightarrow> None
          | Some rom_format \<Rightarrow>
              (let buf = normalizeData first (of_nat (length first)) rom_format;
                   (detected, s1) = detect_rom_settings_in_dbs_with_md5 dbs (md5_hex buf) s0;
                   sent = buf @ concat (map (\<lambda>ch. normalizeData ch (of_nat (length ch)) rom_format) rest)
               in Some (resolve_after_stream behind dbs (md5_hex sent) (first_chunk_info_of buf)
                          detected s1))))"

text \<open>The stream that \<open>n64_rom_tx\<close> hands to \<open>user_io_file_tx_data\<close>, chunk by chunk:
  the format is detected on the first chunk and applied to every chunk.\<close>

definition n64_rom_tx_stream :: "byte list \<Rightarrow> byte list list option" where
  "n64_rom_tx_stream rom =
    (case rom_chunks rom of
       [] \<Rightarrow> Some []
     | first # rest \<Rightarrow>
         (case (if length first < 4096 then None else detectRomFormat first) of
            None \<Rightarrow> None
          | Some rom_format \<Rightarrow>
              Some (map (\<lambda>ch. normalizeData ch (of_nat (length ch)) rom_format) (first # rest))))"

text \<open>\<open>n64_rom_tx\<close> for an N64 image: detection, then the mount stage and the reset pulse
  on option \<open>[0]\<close>. The result is the return value, \<open>rom_settings_detected\<close> and the
  state.\<close>

definition n64_rom_tx ::
  "(byte list \<Rightarrow> string) \<Rightarrow> line_memory \<Rightarrow> db_files \<Rightarrow> (nat \<Rightarrow> MemoryType \<Rightarrow> bool \<times> fileTYPE)
     \<Rightarrow> byte list \<Rightarrow> n64_state \<Rightarrow> int \<times> 8 word \<times> n64_state" where
  "n64_rom_tx md5_hex behind dbs backing rom s =
    (case n64_rom_tx_detect md5_hex behind dbs rom s of
       None \<Rightarrow> (0, 0, unmount_all_save_files s)
     | Some (detected, s1) \<Rightarrow>
         (let (do_reset, s2) = mount_all backing s1;
              s3 = (if do_reset
                    then s2\<lparr>cfg := user_io_status_set ''[0]'' 0 (user_io_status_set ''[0]'' 1 (cfg s2))\<rparr>
                    else s2)
          in (1, detected, s3)))"

section \<open>Properties stated by the specification\<close>

text \<open>What the specification says of a normalized chunk: under byte-swapped-16 each
  adjacent byte pair is swapped, under little-endian each 4-byte word is reversed (bytes
  behind the last full pair or word stay), and otherwise every byte is unchanged.\<close>

definition pairs_swapped :: "byte list \<Rightarrow> byte list \<Rightarrow> bool" where
  "pairs_swapped src dst \<longleftrightarrow>
     length dst = length src \<and>
     (\<forall>i < length src div 2. dst ! (2 * i) = src ! (2 * i + 1) \<and> dst ! (2 * i + 1) = src ! (2 * i)) \<and>
     (\<forall>j < length src. 2 * (length src div 2) \<le> j \<longrightarrow> dst ! j = src ! j)"

definition words_reversed :: "byte list \<Rightarrow> byte list \<Rightarrow> bool" where
  "words_reversed src dst \<longleftrightarrow>
     length dst = length src \<and>
     (\<forall>i < length src div 4.
        dst ! (4 * i) = src ! (4 * i + 3) \<and> dst ! (4 * i + 1) = src ! (4 * i + 2) \<and>
        dst ! (4 * i + 2) = src ! (4 * i + 1) \<and> dst ! (4 * i + 3) = src ! (4 * i)) \<and>
     (\<forall>j < length src. 4 * (length src div 4) \<le> j \<longrightarrow> dst ! j = src ! j)"

definition chunk_normalized :: "DataFormat \<Rightarrow> byte list \<Rightarrow> byte list \<Rightarrow> bool" where
  "chunk_normalized format src dst =
    (case format of
       BYTE_SWAPPED \<Rightarrow> pairs_swapped src dst
     | LITTLE_ENDIAN \<Rightarrow> words_reversed src dst
     | _ \<Rightarrow> dst = src)"

text \<open>The mount order the specification states: the save-type region first if present,
  then the transfer pak or the first controller pak, then the remaining controller
  paks.\<close>

definition expected_regions :: "option_store \<Rightarrow> MemoryType list" where
  "expected_regions c =
    (if get_cart_save_type c \<noteq> NONE then [get_cart_save_type c] else []) @
    (if user_io_status_get c TPAK_OPT \<noteq> 0 \<or> user_io_status_get c CPAK_OPT \<noteq> 0
     then [if user_io_status_get c TPAK_OPT \<noteq> 0 then TPAK else CPAK] else []) @
    (if user_io_status_get c CPAK_OPT \<noteq> 0 then [CPAK, CPAK, CPAK] else [])"

text \<open>The byte range of the region in slot \<open>k\<close>: it starts at
  \<open>get_save_file_offset(k)\<close> and has the size of the kind mounted in the slot.\<close>

definition region_start :: "n64_state \<Rightarrow> nat \<Rightarrow> int" where
  "region_start s k = uint (get_save_file_offset (cfg s) (of_nat k))"

definition region_size :: "n64_state \<Rightarrow> nat \<Rightarrow> int" where
  "region_size s k = uint (get_save_size (sf_type (save_files s k)))"

text \<open>One application of a tag list to the state, as a ROM load with a knowledge-base
  match performs it, and the aspect ratio currently configured.\<close>

definition apply_tags :: "string \<Rightarrow> n64_state \<Rightarrow> n64_state" where
  "apply_tags tags s = snd (parse_and_apply_db_tags (Some tags) s)"

definition current_ar :: "n64_state \<Rightarrow> u32" where
  "current_ar s = user_io_status_get (cfg s) AR_TYPE_OPT"

text \<open>The two boot-code checksums as the specification names them: the sum of the
  little-endian 32-bit words of the first chunk from byte \<open>lo\<close> up to byte \<open>hi\<close>.\<close>

definition range_sum :: "byte list \<Rightarrow> nat \<Rightarrow> nat \<Rightarrow> u64" where
  "range_sum buf lo hi = add_words 0 (u32_words (take (hi - lo) (drop lo buf)))"

text \<open>Trying candidate checksums against the signature table in the order given, first
  match wins; without a match the region default decides the chip and the chip counts as
  unknown. The specification gives the order short-range, long-range.\<close>

fun first_match :: "u64 list \<Rightarrow> SystemType \<Rightarrow> SystemType \<times> CIC \<times> bool" where
  "first_match [] sys = (sys, if sys \<noteq> PAL then CIC_NUS_6102 else CIC_NUS_7101, False)"
| "first_match (sg # sgs) sys =
     (case signature_case sg sys of
        Some (sys', cic) \<Rightarrow> (sys', cic, True)
      | None \<Rightarrow> first_match sgs sys)"

text \<open>The knowledge-base lookups of the resolution order, as \<open>n64_rom_tx\<close> chains them
  after the transfer: \<open>detected\<close> is the result of the header-hash lookup; the
  full-content-hash lookup runs if that found nothing, the cart-code lookup if both found
  nothing.\<close>

definition kb_lookup ::
  "line_memory \<Rightarrow> db_files \<Rightarrow> string \<Rightarrow> first_chunk_info \<Rightarrow> 8 word \<Rightarrow> n64_state
     \<Rightarrow> 8 word \<times> n64_state" where
  "kb_lookup behind dbs md5_hex info detected s =
    (let (d1, s1) = (if detected = 0 then detect_rom_settings_in_dbs_with_md5 dbs md5_hex s
                     else (detected, s))
     in if d1 = 0 then detect_rom_settings_in_dbs_with_cartid behind dbs (cart_id info) s1
        else (d1, s1))"

section \<open>Verification\<close>

subsection \<open>Byte-order normalizer\<close>

lemma drop_bit_and_not_mask: "drop_bit n ((w::u32) AND NOT (mask n)) = drop_bit n w"
  by (rule bit_word_eqI) (auto simp: bit_simps dest: bit_imp_le_length)

lemma unat_and_not_mask_div: "unat ((w::u32) AND NOT (mask n)) div 2 ^ n = unat w div 2 ^ n"
proof -
  have "unat (drop_bit n (w AND NOT (mask n))) = unat (drop_bit n w)"
    by (simp only: drop_bit_and_not_mask)
  then have "drop_bit n (unat (w AND NOT (mask n))) = drop_bit n (unat w)"
    unfolding unat_drop_bit_eq .
  then show ?thesis
    by (simp only: drop_bit_eq_div)
qed

lemma round_down_2: "unat ((w::u32) AND NOT 1) div 2 = unat w div 2"
  using unat_and_not_mask_div [of w 1] by simp

lemma round_down_4: "unat ((w::u32) AND NOT 3) div 4 = unat w div 4"
  using unat_and_not_mask_div [of w 2] by (simp add: mask_eq_exp_minus_1)

lemma swap16_loop_length: "length (swap16_loop n d) = length d"
  by (induction n d rule: swap16_loop.induct) auto

lemma swap32_loop_length: "length (swap32_loop n d) = length d"
  by (induction n d rule: swap32_loop.induct) auto

lemma swap16_loop_pairs:
  "i < n \<Longrightarrow> 2 * n \<le> length d \<Longrightarrow>
   swap16_loop n d ! (2 * i) = d ! (2 * i + 1) \<and> swap16_loop n d ! (2 * i + 1) = d ! (2 * i)"
proof (induction n d arbitrary: i rule: swap16_loop.induct)
  case (1 n c0 c1 data)
  show ?case
  proof (cases i)
    case 0
    then show ?thesis by simp
  next
    case (Suc i')
    with 1 have "i' < n" "2 * n \<le> length data" by simp_all
    from 1(1)[OF this] Suc show ?thesis by simp
  qed
qed simp_all

lemma swap16_loop_rest:
  "2 * n \<le> j \<Longrightarrow> swap16_loop n d ! j = d ! j"
proof (induction n d arbitrary: j rule: swap16_loop.induct)
  case (1 n c0 c1 data)
  from 1(2) have "2 \<le> j" by simp
  then obtain k where k: "j = Suc (Suc k)"
    using le_Suc_ex [of 2 j] by auto
  with 1(2) have "2 * n \<le> k" by simp
  from 1(1)[OF this] k(1) show ?case by simp
qed simp_all

lemma swap32_loop_words:
  "i < n \<Longrightarrow> 4 * n \<le> length d \<Longrightarrow>
   swap32_loop n d ! (4 * i) = d ! (4 * i + 3) \<and> swap32_loop n d ! (4 * i + 1) = d ! (4 * i + 2) \<and>
   swap32_loop n d ! (4 * i + 2) = d ! (4 * i + 1) \<and> swap32_loop n d ! (4 * i + 3) = d ! (4 * i)"
proof (induction n d arbitrary: i rule: swap32_loop.induct)
  case (1 n c0 c1 c2 c3 data)
  show ?case
  proof (cases i)
    case 0
    then show ?thesis by (simp add: numeral_3_eq_3)
  next
    case (Suc i')
    with 1 have "i' < n" "4 * n \<le> length data" by simp_all
    from 1(1)[OF this] Suc show ?thesis by (simp add: numeral_3_eq_3)
  qed
qed simp_all

lemma swap32_loop_rest:
  "4 * n \<le> j \<Longrightarrow> swap32_loop n d ! j = d ! j"
proof (induction n d arbitrary: j rule: swap32_loop.induct)
  case (1 n c0 c1 c2 c3 data)
  from 1(2) have "4 \<le> j" by simp
  then obtain k where k: "j = Suc (Suc (Suc (Suc k)))"
    using le_Suc_ex [of 4 j] by auto
  with 1(2) have "4 * n \<le> k" by simp
  from 1(1)[OF this] k show ?case by simp
qed simp_all

lemma swap32_loop_invol: "swap32_loop n (swap32_loop n d) = d"
  by (induction n d rule: swap32_loop.induct) auto

lemma normalize_swapped_eq:
  assumes "unat sz = length d"
  shows "normalizeData d sz BYTE_SWAPPED = swap16_loop (length d div 2) d"
proof -
  have "unat (sz AND NOT 1) div 2 = length d div 2"
    using assms by (simp only: round_down_2)
  then show ?thesis
    unfolding normalizeData_def by (simp only: DataFormat.case)
qed

lemma normalize_little_eq:
  assumes "unat sz = length d"
  shows "normalizeData d sz LITTLE_ENDIAN = swap32_loop (length d div 4) d"
proof -
  have "unat (sz AND NOT 3) div 4 = length d div 4"
    using assms by (simp only: round_down_4)
  then show ?thesis
    unfolding normalizeData_def by (simp only: DataFormat.case)
qed

lemma normalize_pairs_swapped:
  assumes "unat sz = length d"
  shows "pairs_swapped d (normalizeData d sz BYTE_SWAPPED)"
proof -
  have le: "2 * (length d div 2) \<le> length d" by simp
  show ?thesis
    unfolding pairs_swapped_def normalize_swapped_eq [OF assms]
    using swap16_loop_pairs [OF _ le] swap16_loop_rest [of "length d div 2" _ d]
    by (simp add: swap16_loop_length)
qed

lemma normalize_words_reversed:
  assumes "unat sz = length d"
  shows "words_reversed d (normalizeData d sz LITTLE_ENDIAN)"
proof -
  have le: "4 * (length d div 4) \<le> length d" by simp
  show ?thesis
    unfolding words_reversed_def normalize_little_eq [OF assms]
    using swap32_loop_words [OF _ le] swap32_loop_rest [of "length d div 4" _ d]
    by (simp add: swap32_loop_length)
qed

lemma normalize_chunk_normalized:
  assumes "unat sz = length d"
  shows "chunk_normalized fmt d (normalizeData d sz fmt)"
proof (cases fmt)
  case BYTE_SWAPPED
  then show ?thesis using normalize_pairs_swapped [OF assms] by (simp add: chunk_normalized_def)
next
  case LITTLE_ENDIAN
  then show ?thesis using normalize_words_reversed [OF assms] by (simp add: chunk_normalized_def)
next
  case BIG_ENDIAN
  then show ?thesis by (simp add: chunk_normalized_def normalizeData_def)
next
  case DataFormat_UNKNOWN
  then show ?thesis by (simp add: chunk_normalized_def normalizeData_def)
qed

lemma rom_chunks_length: "ch \<in> set (rom_chunks rom) \<Longrightarrow> length ch \<le> 4096"
proof (induction rom rule: rom_chunks.induct)
  case (1 rom)
  show ?case
  proof (cases "rom = []")
    case True
    with 1(2) show ?thesis by (simp add: rom_chunks.simps)
  next
    case False
    then have "rom_chunks rom = take 4096 rom # rom_chunks (drop 4096 rom)"
      by (subst rom_chunks.simps) simp
    with 1(2) have "ch = take 4096 rom \<or> ch \<in> set (rom_chunks (drop 4096 rom))"
      by simp
    then show ?thesis
    proof
      assume "ch = take 4096 rom"
      then show ?thesis by simp
    next
      assume "ch \<in> set (rom_chunks (drop 4096 rom))"
      then show ?thesis by (rule 1(1)[OF False])
    qed
  qed
qed

lemma unat_chunk_length:
  assumes "ch \<in> set (rom_chunks rom)"
  shows "unat (of_nat (length ch) :: u32) = length ch"
proof -
  have "length ch \<le> 4096" using assms by (rule rom_chunks_length)
  then have "length ch < 2 ^ 32" by simp
  then show ?thesis by (simp add: unat_of_nat)
qed

lemma stream_SomeD:
  assumes "n64_rom_tx_stream rom = Some out"
  shows "rom_chunks rom = [] \<and> out = [] \<or>
    (\<exists>fmt. detectRomFormat (hd (rom_chunks rom)) = Some fmt \<and>
       out = map (\<lambda>ch. normalizeData ch (of_nat (length ch)) fmt) (rom_chunks rom))"
proof (cases "rom_chunks rom")
  case Nil
  with assms show ?thesis by (simp add: n64_rom_tx_stream_def)
next
  case (Cons first rest)
  show ?thesis
  proof (cases "length first < 4096")
    case True
    with assms Cons show ?thesis by (simp add: n64_rom_tx_stream_def)
  next
    case False
    show ?thesis
    proof (cases "detectRomFormat first")
      case None
      with assms Cons False show ?thesis by (simp add: n64_rom_tx_stream_def)
    next
      case (Some fmt)
      with assms Cons False have "out = map (\<lambda>ch. normalizeData ch (of_nat (length ch)) fmt) (first # rest)"
        by (simp add: n64_rom_tx_stream_def)
      with Some Cons show ?thesis by simp
    qed
  qed
qed

lemma rom_chunks_single:
  assumes "rom \<noteq> []" "length rom \<le> 4096"
  shows "rom_chunks rom = [rom]"
proof -
  from assms have "take 4096 rom = rom" "drop 4096 rom = []" by simp_all
  moreover have "rom_chunks [] = []" by (subst rom_chunks.simps) simp
  ultimately show ?thesis using assms(1) by (subst rom_chunks.simps) simp
qed

text \<open>Claim C6. Every chunk of one transfer is rewritten under the byte order that
  \<open>detectRomFormat\<close> finds in the first chunk: byte-swapped-16 swaps each adjacent byte pair,
  little-endian reverses each 4-byte word, big-endian and undetermined leave every byte
  unchanged. The word \<open>0x40123780\<close> classifies as big-endian and the bytes stay; the word
  \<open>0x12408037\<close> classifies as byte-swapped and \<open>AA BB CC DD\<close> becomes \<open>BB AA DD CC\<close>.\<close>

theorem normalize_by_first_chunk_format:
  assumes "n64_rom_tx_stream rom = Some out" and "k < length out"
  shows "(\<exists>fmt. detectRomFormat (hd (rom_chunks rom)) = Some fmt \<and>
            length out = length (rom_chunks rom) \<and>
            out ! k = normalizeData (rom_chunks rom ! k) (of_nat (length (rom_chunks rom ! k))) fmt \<and>
            chunk_normalized fmt (rom_chunks rom ! k) (out ! k)) \<and>
         classify_word 0x40123780 = BIG_ENDIAN \<and>
         detectRomFormat [0x80, 0x37, 0x12, 0x40] = Some BIG_ENDIAN \<and>
         (\<forall>d n. normalizeData d n BIG_ENDIAN = d) \<and>
         classify_word 0x12408037 = BYTE_SWAPPED \<and>
         detectRomFormat [0x37, 0x80, 0x40, 0x12] = Some BYTE_SWAPPED \<and>
         normalizeData [0xAA, 0xBB, 0xCC, 0xDD] 4 BYTE_SWAPPED = [0xBB, 0xAA, 0xDD, 0xCC]"
proof -
  from assms stream_SomeD [OF assms(1)] obtain fmt where
    fmt: "detectRomFormat (hd (rom_chunks rom)) = Some fmt" and
    out: "out = map (\<lambda>ch. normalizeData ch (of_nat (length ch)) fmt) (rom_chunks rom)"
    by auto
  from out assms(2) have k: "k < length (rom_chunks rom)" by simp
  then have mem: "rom_chunks rom ! k \<in> set (rom_chunks rom)" by simp
  from out k have outk:
    "out ! k = normalizeData (rom_chunks rom ! k) (of_nat (length (rom_chunks rom ! k))) fmt"
    by simp
  have "chunk_normalized fmt (rom_chunks rom ! k) (out ! k)"
    unfolding outk by (rule normalize_chunk_normalized) (rule unat_chunk_length [OF mem])
  with fmt out outk have first: "\<exists>fmt. detectRomFormat (hd (rom_chunks rom)) = Some fmt \<and>
            length out = length (rom_chunks rom) \<and>
            out ! k = normalizeData (rom_chunks rom ! k) (of_nat (length (rom_chunks rom ! k))) fmt \<and>
            chunk_normalized fmt (rom_chunks rom ! k) (out ! k)"
    by auto
  have e1: "classify_word 0x40123780 = BIG_ENDIAN"
    by (simp add: classify_word_def)
  have e2: "detectRomFormat [0x80, 0x37, 0x12, 0x40] = Some BIG_ENDIAN"
    by code_simp
  have e3: "\<forall>d n. normalizeData d n BIG_ENDIAN = d"
    by (simp add: normalizeData_def)
  have e4: "classify_word 0x12408037 = BYTE_SWAPPED"
    by (simp add: classify_word_def)
  have e5: "detectRomFormat [0x37, 0x80, 0x40, 0x12] = Some BYTE_SWAPPED"
    by code_simp
  have e6: "normalizeData [0xAA, 0xBB, 0xCC, 0xDD] 4 BYTE_SWAPPED = [0xBB, 0xAA, 0xDD, 0xCC]"
    by code_simp
  from first e1 e2 e3 e4 e5 e6 show ?thesis by (intro conjI)
qed

text \<open>A byte-swapped ROM of one chunk: the header word reads \<open>0x12408037\<close>, and the
  first eight bytes of the chunk sent on are pairwise swapped.\<close>

theorem normalize_by_first_chunk_format_witness:
  "n64_rom_tx_stream ([0x37, 0x80, 0x40, 0x12, 0xAA, 0xBB, 0xCC, 0xDD] @ replicate 4088 0) \<noteq> None \<and>
   map (\<lambda>i. the (n64_rom_tx_stream ([0x37, 0x80, 0x40, 0x12, 0xAA, 0xBB, 0xCC, 0xDD] @ replicate 4088 0)) ! 0 ! i)
     [0, 1, 2, 3, 4, 5, 6, 7] = [0x80, 0x37, 0x12, 0x40, 0xBB, 0xAA, 0xDD, 0xCC]"
proof -
  let ?rom = "[0x37, 0x80, 0x40, 0x12, 0xAA, 0xBB, 0xCC, 0xDD] @ replicate 4088 (0::byte)"
  have chunks: "rom_chunks ?rom = [?rom]"
    by (rule rom_chunks_single) simp_all
  have fmt: "detectRomFormat ?rom = Some BYTE_SWAPPED"
    by (simp add: classify_word_def u32_le_def)
  define out where "out = [normalizeData ?rom (of_nat (length ?rom)) BYTE_SWAPPED]"
  have stream: "n64_rom_tx_stream ?rom = Some out"
    unfolding n64_rom_tx_stream_def chunks out_def using fmt by simp
  have k: "0 < length out" by (simp add: out_def)
  from normalize_by_first_chunk_format [OF stream k] chunks fmt
  have cn: "chunk_normalized BYTE_SWAPPED ?rom (out ! 0)"
    by auto
  then have ps: "pairs_swapped ?rom (out ! 0)" by (simp add: chunk_normalized_def)
  have sw: "\<And>i. i < 2048 \<Longrightarrow> out ! 0 ! (2 * i) = ?rom ! (2 * i + 1) \<and> out ! 0 ! (2 * i + 1) = ?rom ! (2 * i)"
    using ps by (simp add: pairs_swapped_def)
  have "out ! 0 ! 0 = 0x80" "out ! 0 ! 1 = 0x37" "out ! 0 ! 2 = 0x12" "out ! 0 ! 3 = 0x40"
    "out ! 0 ! 4 = 0xBB" "out ! 0 ! 5 = 0xAA" "out ! 0 ! 6 = 0xDD" "out ! 0 ! 7 = 0xCC"
    using sw [of 0] sw [of 1] sw [of 2] sw [of 3] by simp_all
  with stream show ?thesis by simp
qed

subsection \<open>Pak regions: write, then read\<close>

lemma normalize_little_loop:
  "normalizeData d sz LITTLE_ENDIAN = swap32_loop (unat sz div 4) d"
proof -
  have "unat (sz AND NOT 3) div 4 = unat sz div 4"
    by (simp only: round_down_4)
  then show ?thesis
    unfolding normalizeData_def by (simp only: DataFormat.case)
qed

lemma short_has_no_word:
  "4 * n \<le> Suc 0 \<Longrightarrow> n = 0" "4 * n \<le> Suc (Suc 0) \<Longrightarrow> n = 0"
  "4 * n \<le> Suc (Suc (Suc 0)) \<Longrightarrow> n = 0"
  by arith+

lemma swap32_loop_append:
  "4 * n \<le> length xs \<Longrightarrow> swap32_loop n (xs @ ys) = swap32_loop n xs @ ys"
  by (induction n xs rule: swap32_loop.induct) (auto dest!: short_has_no_word)

lemma pak_store_load:
  fixes inbound :: "byte list"
  assumes "length inbound = m" and "m \<le> bs" and "bs \<le> length rbuf"
    and "p + m \<le> length d"
  defines "d' \<equiv> take p d @ swap32_loop (m div 4) inbound @ drop (p + m) d"
  defines "got \<equiv> take (min bs (length rbuf)) (drop p d')"
  shows "length got \<noteq> 0 \<or> m = 0"
    and "take m (swap32_loop (m div 4) (got @ drop (length got) rbuf)) = inbound"
proof -
  let ?sw = "swap32_loop (m div 4) inbound"
  have lsw: "length ?sw = m" using assms(1) by (simp add: swap32_loop_length)
  have p: "p \<le> length d" using assms(4) by simp
  have dd: "drop p d' = ?sw @ drop (p + m) d"
    unfolding d'_def using p by simp
  have got: "got = ?sw @ take (bs - m) (drop (p + m) d)"
    unfolding got_def dd using assms(2,3) lsw by (simp add: min_absorb1)
  show "length got \<noteq> 0 \<or> m = 0"
    unfolding got using lsw by auto
  have le: "4 * (m div 4) \<le> length ?sw" using lsw by simp
  have "swap32_loop (m div 4) (got @ drop (length got) rbuf)
      = swap32_loop (m div 4) ?sw @ (take (bs - m) (drop (p + m) d) @ drop (length got) rbuf)"
    unfolding got using swap32_loop_append [OF le] by simp
  also have "\<dots> = inbound @ (take (bs - m) (drop (p + m) d) @ drop (length got) rbuf)"
    by (simp only: swap32_loop_invol)
  finally show "take m (swap32_loop (m div 4) (got @ drop (length got) rbuf)) = inbound"
    using assms(1) by simp
qed

text \<open>Claim C7. For a pak-type region, a block written through \<open>n64_save_savedata\<close> (which
  transcodes the bytes before storing them) and read back through \<open>n64_load_savedata\<close> at
  the same block address (which transcodes the stored bytes on the way out) is delivered
  unchanged, whatever the block length: the transcode is its own inverse.\<close>

theorem pak_write_read_roundtrip:
  assumes loc: "locate_save_file (cfg s) (mounted_save_files s) (lba * ucast blksz) 0 = (fi, False)"
    and pak: "is_pak (sf_type (save_files s (unat fi)))"
    and img: "images s (unat fi) = Some d"
    and pos: "0 \<le> sint (lba * ucast blksz) - uint (get_save_file_offset (cfg s) fi)"
    and fits: "nat (sint (lba * ucast blksz) - uint (get_save_file_offset (cfg s) fi)) + unat sz
                 \<le> length d"
    and sz: "sz \<noteq> 0"
    and inb: "length inbound = unat sz"
    and bs: "unat sz \<le> unat buffer_size" "unat buffer_size \<le> length rbuf"
  shows "snd (snd (n64_load_savedata (fst (n64_save_savedata s lba wbuf blksz sz inbound))
           lba rbuf buffer_size blksz sz)) = inbound"
proof -
  define pos1 where "pos1 = sint (lba * ucast blksz) - uint (get_save_file_offset (cfg s) fi)"
  define p where "p = nat pos1"
  define m where "m = unat sz"
  define sw where "sw = swap32_loop (m div 4) inbound"
  define d' where "d' = take p d @ sw @ drop (p + m) d"
  define s' where "s' = s\<lparr>images := (images s)(unat fi := Some d')\<rparr>"
  have m0: "m \<noteq> 0" using sz by (simp add: m_def unat_eq_0)
  have lsw: "length sw = m" using inb by (simp add: sw_def m_def swap32_loop_length)
  have pd: "p + m \<le> length d" using fits by (simp add: p_def pos1_def m_def)
  have seek: "FileSeek (Some d) pos1" using pos by (simp add: FileSeek_def pos1_def)
  have le: "4 * (m div 4) \<le> length inbound" using inb by (simp add: m_def)
  have fetched: "take m inbound = inbound" using inb by (simp add: m_def)
  have tr: "take m (swap32_loop (m div 4) (inbound @ drop m wbuf)) = sw"
    unfolding sw_def swap32_loop_append [OF le] using inb by (simp add: m_def swap32_loop_length)
  have wr: "FileWriteAdv (Some d) pos1 (swap32_loop (m div 4) (inbound @ drop m wbuf)) m
              = (m, Some d')"
    unfolding FileWriteAdv_def using pd lsw tr by (simp add: Let_def d'_def p_def)
  have save: "fst (n64_save_savedata s lba wbuf blksz sz inbound) = s'"
    unfolding n64_save_savedata_def
    using loc pak img seek sz wr inb fetched
    by (simp add: Let_def normalize_little_loop s'_def flip: pos1_def m_def)
  have loc': "locate_save_file (cfg s') (mounted_save_files s') (lba * ucast blksz) 0 = (fi, False)"
    using loc by (simp add: s'_def)
  have img': "images s' (unat fi) = Some d'" by (simp add: s'_def)
  have size': "file_size (Some d') \<noteq> 0"
    using m0 lsw by (auto simp: file_size_def d'_def)
  have seek': "FileSeek (Some d') pos1" using pos by (simp add: FileSeek_def pos1_def)
  define got where "got = take (min (unat buffer_size) (length rbuf)) (drop p d')"
  have rd: "FileReadAdv (Some d') pos1 rbuf (unat buffer_size) = (length got, got @ drop (length got) rbuf)"
    by (simp add: FileReadAdv_def Let_def got_def p_def)
  from pak_store_load [of inbound m "unat buffer_size" rbuf p d] inb bs pd
  have got0: "length got \<noteq> 0" and rtrip: "take m (swap32_loop (m div 4) (got @ drop (length got) rbuf)) = inbound"
    using m0 by (simp_all add: m_def got_def d'_def sw_def)
  have pak': "is_pak (sf_type (save_files s' (unat fi)))" using pak by (simp add: s'_def)
  have cfg': "cfg s' = cfg s" by (simp add: s'_def)
  have "snd (snd (n64_load_savedata s' lba rbuf buffer_size blksz sz)) = inbound"
    unfolding n64_load_savedata_def
    using loc' img' size' seek' rd got0 rtrip pak'
    by (simp add: Let_def normalize_little_loop cfg' flip: pos1_def m_def)
  then show ?thesis by (simp only: save)
qed

text \<open>Four controller paks, a block of eight bytes written at block \<open>0x41\<close> (offset
  \<open>0x200\<close> of the second pak) and read back.\<close>

theorem pak_write_read_roundtrip_witness:
  "snd (snd (n64_load_savedata
     (fst (n64_save_savedata
        \<lparr>cfg = (\<lambda>_. 0)(CPAK_OPT := 1), old_ar = - 1, mounted_save_files = 4,
         save_files = (\<lambda>i. \<lparr>sf_idx = int i, sf_type = CPAK\<rparr>),
         images = (\<lambda>_. Some (replicate 0x8000 0))\<rparr>
        0x41 [] 512 8 [1, 2, 3, 4, 5, 6, 7, 8]))
     0x41 (replicate 512 0) 512 512 8)) = [1, 2, 3, 4, 5, 6, 7, 8]"
proof -
  let ?c = "(\<lambda>_. 0)(CPAK_OPT := 1) :: option_store"
  let ?s = "\<lparr>cfg = ?c, old_ar = - 1, mounted_save_files = 4,
         save_files = (\<lambda>i. \<lparr>sf_idx = int i, sf_type = CPAK\<rparr>),
         images = (\<lambda>_. Some (replicate 0x8000 (0::byte)))\<rparr>"
  have off1: "get_save_file_offset ?c 1 = 0x8000"
    by (simp add: get_save_file_offset_def get_cart_save_type_def MemoryType_of_u32_def
        user_io_status_get_def CPAK_OPT_def SAVE_TYPE_OPT_def TPAK_OPT_def)
  have off2: "get_save_file_offset ?c 2 = 0x10000"
    by (simp add: get_save_file_offset_def get_cart_save_type_def MemoryType_of_u32_def
        user_io_status_get_def CPAK_OPT_def SAVE_TYPE_OPT_def TPAK_OPT_def)
  have "locate_save_file ?c 4 (0x41 * ucast (512 :: u32)) 0 = (1, False)"
    by (simp add: locate_save_file.simps [of _ _ _ 0] locate_save_file.simps [of _ _ _ 1] off1 off2
        word_le_nat_alt)
  then have loc: "locate_save_file (cfg ?s) (mounted_save_files ?s) (0x41 * ucast (512 :: u32)) 0 = (1, False)"
    by simp
  show ?thesis
    by (rule pak_write_read_roundtrip [where fi = 1 and d = "replicate 0x8000 0", OF loc])
       (simp_all add: is_pak_def off1)
qed

subsection \<open>Region offsets and out-of-range block I/O\<close>

lemma ucast_pred:
  fixes i :: "8 word"
  assumes "i \<noteq> 0"
  shows "(ucast (i - 1) :: u32) + 1 = ucast i"
proof -
  have "unat (i - 1) = unat i - 1" using assms by (rule unat_minus_one)
  moreover have "unat i \<noteq> 0" using assms by (simp add: unat_eq_0)
  ultimately have "Suc (unat (i - 1)) = unat i" by simp
  then have "(of_nat (Suc (unat (i - 1))) :: u32) = of_nat (unat i)" by simp
  then show ?thesis by (simp add: add.commute)
qed

lemma pak_step:
  fixes i :: "8 word"
  assumes "i \<noteq> 0"
  shows "0x8000 + 0x8000 * (ucast (i - 1) :: u32) = 0x8000 * ucast i"
proof -
  have "0x8000 * (ucast i :: u32) = 0x8000 * (ucast (i - 1) + 1)"
    by (simp only: ucast_pred [OF assms])
  then show ?thesis by (simp add: distrib_left)
qed

lemma offset_word:
  "get_save_file_offset c idx =
     (if idx \<noteq> 0 \<and> get_cart_save_type c \<noteq> NONE
      then get_save_size (get_cart_save_type c) + 0x8000 * ucast (idx - 1)
      else 0x8000 * ucast idx)"
proof (cases "idx \<noteq> 0 \<and> get_cart_save_type c \<noteq> NONE")
  case True
  show ?thesis
  proof (cases "idx - 1 \<noteq> 0 \<and> user_io_status_get c TPAK_OPT \<noteq> 0")
    case True
    with \<open>idx \<noteq> 0 \<and> get_cart_save_type c \<noteq> NONE\<close> pak_step [of "idx - 1"] show ?thesis
      by (simp add: get_save_file_offset_def Let_def add.assoc)
  next
    case False
    with \<open>idx \<noteq> 0 \<and> get_cart_save_type c \<noteq> NONE\<close> show ?thesis
      by (auto simp: get_save_file_offset_def Let_def)
  qed
next
  case False
  show ?thesis
  proof (cases "idx \<noteq> 0 \<and> user_io_status_get c TPAK_OPT \<noteq> 0")
    case True
    with False pak_step [of idx] show ?thesis
      by (auto simp: get_save_file_offset_def Let_def)
  next
    case False
    with \<open>\<not> (idx \<noteq> 0 \<and> get_cart_save_type c \<noteq> NONE)\<close> show ?thesis
      by (auto simp: get_save_file_offset_def Let_def)
  qed
qed

lemma uint_pak:
  fixes i :: "8 word"
  shows "uint (0x8000 * (ucast i :: u32)) = 0x8000 * uint i"
proof -
  have u: "uint (ucast i :: u32) = uint i" by (simp add: uint_up_ucast is_up)
  have "uint i < 256" using uint_lt2p [of i] by simp
  then have "uint (0x8000 :: u32) * uint (ucast i :: u32) < 2 ^ LENGTH(32)"
    using u by simp
  then have "uint (0x8000 * (ucast i :: u32)) = uint (0x8000 :: u32) * uint (ucast i :: u32)"
    by (simp only: uint_mult_lem)
  with u show ?thesis by simp
qed

lemma size_bound: "uint (get_save_size t) \<le> 0x20000"
  by (cases t) simp_all

lemma offset_uint:
  "uint (get_save_file_offset c idx) =
     (if idx \<noteq> 0 \<and> get_cart_save_type c \<noteq> NONE
      then uint (get_save_size (get_cart_save_type c)) + 0x8000 * (uint idx - 1)
      else 0x8000 * uint idx)"
proof (cases "idx \<noteq> 0 \<and> get_cart_save_type c \<noteq> NONE")
  case True
  then have i: "uint (idx - 1) = uint idx - 1"
    by (metis uint_nat unat_minus_one of_nat_diff One_nat_def int_ops(2) Suc_leI unat_gt_0)
  have "uint (idx - 1) < 256" using uint_lt2p [of "idx - 1"] by simp
  then have "uint (get_save_size (get_cart_save_type c)) + uint (0x8000 * (ucast (idx - 1) :: u32))
      < 2 ^ LENGTH(32)"
    using size_bound [of "get_cart_save_type c"] by (simp add: uint_pak)
  then have "uint (get_save_size (get_cart_save_type c) + 0x8000 * (ucast (idx - 1) :: u32))
      = uint (get_save_size (get_cart_save_type c)) + uint (0x8000 * (ucast (idx - 1) :: u32))"
    by (simp only: uint_add_lem)
  with True i show ?thesis by (simp add: offset_word uint_pak)
next
  case False
  then show ?thesis by (auto simp: offset_word uint_pak)
qed
lemma offset_mono:
  assumes "k \<le> m"
  shows "uint (get_save_file_offset c k) \<le> uint (get_save_file_offset c m)"
proof (cases "k = 0")
  case True
  then have "get_save_file_offset c k = 0" by (simp add: offset_word)
  then show ?thesis by simp
next
  case False
  with assms have m: "m \<noteq> 0" by auto
  from assms have "uint k \<le> uint m" by (simp add: word_le_def)
  with False m show ?thesis by (simp add: offset_uint)
qed

lemma locate_beyond:
  "fi < m \<Longrightarrow> uint (get_save_file_offset c m) \<le> sint pos \<Longrightarrow>
   locate_save_file c m pos fi = (m, True)"
proof (induction c m pos fi rule: locate_save_file.induct)
  case (1 c mounted pos file_idx)
  from 1(2) have next_le: "file_idx + 1 \<le> mounted" by (rule inc_le)
  then have "uint (get_save_file_offset c (file_idx + 1)) \<le> uint (get_save_file_offset c mounted)"
    by (rule offset_mono)
  with 1(3) have cond: "uint (get_save_file_offset c (file_idx + 1)) \<le> sint pos" by simp
  show ?case
  proof (cases "mounted \<le> file_idx + 1")
    case True
    with next_le have "file_idx + 1 = mounted" by simp
    with cond True show ?thesis by (simp add: locate_save_file.simps [of c mounted pos file_idx])
  next
    case False
    then have "file_idx + 1 < mounted" by simp
    from 1(1)[OF cond False this 1(3)] cond False show ?thesis
      by (simp add: locate_save_file.simps [of c mounted pos file_idx])
  qed
qed

text \<open>Claim C8. When at least one region is mounted and the byte offset of the requested
  block (the signed 64-bit \<open>pos\<close> of the source) lies at or beyond the end of the last
  mounted region, \<open>get_save_file_offset(mounted_save_files)\<close>, the read path hands a
  zero-filled block of \<open>sz\<close> bytes to the transport and reports the block address, and the
  write path takes the \<open>sz\<close> inbound bytes from the transport into the buffer and leaves
  the state, with every backing file, as it was.\<close>

theorem out_of_range_block_io:
  assumes mounted: "mounted_save_files s \<noteq> 0"
    and beyond: "uint (get_save_file_offset (cfg s) (mounted_save_files s)) \<le> sint (lba * ucast blksz)"
    and block: "unat sz \<le> unat buffer_size" "length inbound = unat sz"
  shows "snd (snd (n64_load_savedata s lba buffer buffer_size blksz sz)) = replicate (unat sz) 0 \<and>
         fst (n64_load_savedata s lba buffer buffer_size blksz sz) = lba \<and>
         fst (n64_save_savedata s lba buffer blksz sz inbound) = s \<and>
         snd (snd (snd (n64_save_savedata s lba buffer blksz sz inbound))) = unat sz \<and>
         take (unat sz) (fst (snd (snd (n64_save_savedata s lba buffer blksz sz inbound)))) = inbound"
proof -
  from mounted have "0 < mounted_save_files s" by (simp add: word_neq_0_conv)
  then have loc: "locate_save_file (cfg s) (mounted_save_files s) (lba * ucast blksz) 0
      = (mounted_save_files s, True)"
    using beyond by (rule locate_beyond)
  have rd: "n64_load_savedata s lba buffer buffer_size blksz sz =
      (lba, replicate (unat buffer_size) 0 @ drop (unat buffer_size) buffer,
       take (unat sz) (replicate (unat buffer_size) 0 @ drop (unat buffer_size) buffer))"
    unfolding n64_load_savedata_def using loc by (simp add: Let_def)
  have "take (unat sz) (replicate (unat buffer_size) (0::byte) @ drop (unat buffer_size) buffer)
      = replicate (unat sz) 0"
    using block(1) by (simp add: min_absorb1)
  with rd have r1: "snd (snd (n64_load_savedata s lba buffer buffer_size blksz sz)) = replicate (unat sz) 0"
    and r2: "fst (n64_load_savedata s lba buffer buffer_size blksz sz) = lba"
    by simp_all
  have wr: "n64_save_savedata s lba buffer blksz sz inbound =
      (s, - 1, take (unat sz) inbound @ drop (length (take (unat sz) inbound)) buffer,
       length (take (unat sz) inbound))"
    unfolding n64_save_savedata_def using loc by (simp add: Let_def)
  from wr block(2) have w1: "fst (n64_save_savedata s lba buffer blksz sz inbound) = s"
    and w2: "snd (snd (snd (n64_save_savedata s lba buffer blksz sz inbound))) = unat sz"
    and w3: "take (unat sz) (fst (snd (snd (n64_save_savedata s lba buffer blksz sz inbound)))) = inbound"
    by simp_all
  from r1 r2 w1 w2 w3 show ?thesis by (intro conjI)
qed

text \<open>One 32 KiB SRAM region and a request for block \<open>0x40\<close>, the first block behind it.\<close>

theorem out_of_range_block_io_witness:
  "snd (snd (n64_load_savedata
      \<lparr>cfg = (\<lambda>_. 0)(SAVE_TYPE_OPT := 3), old_ar = - 1, mounted_save_files = 1,
       save_files = (\<lambda>i. \<lparr>sf_idx = 0, sf_type = SRAM_32k\<rparr>),
       images = (\<lambda>_. Some (replicate 0x8000 5))\<rparr>
      0x40 (replicate 512 7) 512 512 4)) = replicate 4 0 \<and>
   fst (n64_save_savedata
      \<lparr>cfg = (\<lambda>_. 0)(SAVE_TYPE_OPT := 3), old_ar = - 1, mounted_save_files = 1,
       save_files = (\<lambda>i. \<lparr>sf_idx = 0, sf_type = SRAM_32k\<rparr>),
       images = (\<lambda>_. Some (replicate 0x8000 5))\<rparr>
      0x40 (replicate 512 7) 512 4 [1, 2, 3, 4]) =
      \<lparr>cfg = (\<lambda>_. 0)(SAVE_TYPE_OPT := 3), old_ar = - 1, mounted_save_files = 1,
       save_files = (\<lambda>i. \<lparr>sf_idx = 0, sf_type = SRAM_32k\<rparr>),
       images = (\<lambda>_. Some (replicate 0x8000 5))\<rparr>"
proof -
  let ?c = "(\<lambda>_. 0)(SAVE_TYPE_OPT := 3) :: option_store"
  let ?s = "\<lparr>cfg = ?c, old_ar = - 1, mounted_save_files = 1,
       save_files = (\<lambda>i. \<lparr>sf_idx = 0, sf_type = SRAM_32k\<rparr>),
       images = (\<lambda>_. Some (replicate 0x8000 (5::byte)))\<rparr>"
  have off1: "get_save_file_offset ?c 1 = 0x8000"
    by (simp add: get_save_file_offset_def get_cart_save_type_def MemoryType_of_u32_def
        user_io_status_get_def CPAK_OPT_def SAVE_TYPE_OPT_def TPAK_OPT_def)
  have h1: "mounted_save_files ?s \<noteq> 0" by simp
  have h2: "uint (get_save_file_offset (cfg ?s) (mounted_save_files ?s)) \<le> sint (0x40 * ucast (512 :: u32) :: u64)"
    by (simp add: off1)
  have h3: "unat (4 :: u32) \<le> unat (512 :: u32)" by simp
  have h4: "length [1, 2, 3, 4 :: byte] = unat (4 :: u32)" by simp
  from out_of_range_block_io [OF h1 h2 h3 h4, of "replicate 512 7"]
  show ?thesis by simp
qed

subsection \<open>Mount layout\<close>

lemma less_cases:
  "k < Suc n \<longleftrightarrow> k = n \<or> k < n"
  by auto

lemma mount_all_regions:
  assumes "mounted_save_files s1 = 0"
  shows "cfg (snd (mount_all backing s1)) = cfg s1 \<and>
     unat (mounted_save_files (snd (mount_all backing s1))) = length (expected_regions (cfg s1)) \<and>
     (\<forall>k < length (expected_regions (cfg s1)).
        sf_type (save_files (snd (mount_all backing s1)) k) = expected_regions (cfg s1) ! k \<and>
        sf_idx (save_files (snd (mount_all backing s1)) k) = int k)"
proof (cases "get_cart_save_type (cfg s1) = NONE")
  case st: True
  show ?thesis
  proof (cases "user_io_status_get (cfg s1) TPAK_OPT = 0")
    case tp: True
    show ?thesis
    proof (cases "user_io_status_get (cfg s1) CPAK_OPT = 0")
      case cp: True
      with st tp assms show ?thesis
        by (simp add: mount_all_def mount_save_file_def
            expected_regions_def Let_def case_prod_beta)
    next
      case cp: False
      with st tp assms show ?thesis
        by (simp add: mount_all_def mount_save_file_def
            expected_regions_def Let_def case_prod_beta less_cases nth_Cons')
    qed
  next
    case tp: False
    show ?thesis
    proof (cases "user_io_status_get (cfg s1) CPAK_OPT = 0")
      case cp: True
      with st tp assms show ?thesis
        by (simp add: mount_all_def mount_save_file_def
            expected_regions_def Let_def case_prod_beta less_cases nth_Cons')
    next
      case cp: False
      with st tp assms show ?thesis
        by (simp add: mount_all_def mount_save_file_def
            expected_regions_def Let_def case_prod_beta less_cases nth_Cons')
    qed
  qed
next
  case st: False
  show ?thesis
  proof (cases "user_io_status_get (cfg s1) TPAK_OPT = 0")
    case tp: True
    show ?thesis
    proof (cases "user_io_status_get (cfg s1) CPAK_OPT = 0")
      case cp: True
      with st tp assms show ?thesis
        by (simp add: mount_all_def mount_save_file_def
            expected_regions_def Let_def case_prod_beta less_cases nth_Cons')
    next
      case cp: False
      with st tp assms show ?thesis
        by (simp add: mount_all_def mount_save_file_def
            expected_regions_def Let_def case_prod_beta less_cases nth_Cons')
    qed
  next
    case tp: False
    show ?thesis
    proof (cases "user_io_status_get (cfg s1) CPAK_OPT = 0")
      case cp: True
      with st tp assms show ?thesis
        by (simp add: mount_all_def mount_save_file_def
            expected_regions_def Let_def case_prod_beta less_cases nth_Cons')
    next
      case cp: False
      with st tp assms show ?thesis
        by (simp add: mount_all_def mount_save_file_def
            expected_regions_def Let_def case_prod_beta less_cases nth_Cons')
    qed
  qed
qed

lemma region_start_closed:
  assumes "k < 256"
  shows "region_start s k =
     (if k \<noteq> 0 \<and> get_cart_save_type (cfg s) \<noteq> NONE
      then uint (get_save_size (get_cart_save_type (cfg s))) + 0x8000 * (int k - 1)
      else 0x8000 * int k)"
proof -
  have un: "unat (of_nat k :: 8 word) = k"
    using assms by (simp add: unat_of_nat)
  have u: "uint (of_nat k :: 8 word) = int k"
    by (simp only: uint_nat un)
  have z: "((of_nat k :: 8 word) = 0) = (k = 0)"
    using un unat_eq_0 [of "of_nat k :: 8 word"] by simp
  show ?thesis
    by (simp only: region_start_def offset_uint u z)
qed
lemma cart_save_size_pos:
  "get_cart_save_type c \<noteq> NONE \<Longrightarrow> 0 < uint (get_save_size (get_cart_save_type c))"
proof -
  assume a: "get_cart_save_type c \<noteq> NONE"
  have "get_save_size (get_cart_save_type c) \<noteq> 0"
  proof (cases "MemoryType_of_u32 (user_io_status_get c SAVE_TYPE_OPT)")
    case None
    with a show ?thesis by (simp add: get_cart_save_type_def)
  next
    case (Some v)
    with a show ?thesis by (cases "get_save_size v = 0") (simp_all add: get_cart_save_type_def)
  qed
  then show ?thesis by (simp add: word_neq_0_conv word_less_def)
qed
lemma expected_regions_length: "length (expected_regions c) \<le> 5"
  by (simp add: expected_regions_def)
lemma expected_region_size:
  assumes "k < length (expected_regions c)"
  shows "uint (get_save_size (expected_regions c ! k)) =
     (if k = 0 \<and> get_cart_save_type c \<noteq> NONE
      then uint (get_save_size (get_cart_save_type c)) else 0x8000)"
proof -
  have paks: "\<And>xs j. j < length xs \<Longrightarrow> set xs \<subseteq> {CPAK, TPAK} \<Longrightarrow> uint (get_save_size (xs ! j)) = 0x8000"
  proof -
    fix xs :: "MemoryType list" and j
    assume "j < length xs" "set xs \<subseteq> {CPAK, TPAK}"
    then have "xs ! j = CPAK \<or> xs ! j = TPAK" using nth_mem by blast
    then show "uint (get_save_size (xs ! j)) = 0x8000" by auto
  qed
  define ps where "ps = (if user_io_status_get c TPAK_OPT \<noteq> 0 \<or> user_io_status_get c CPAK_OPT \<noteq> 0
     then [if user_io_status_get c TPAK_OPT \<noteq> 0 then TPAK else CPAK] else []) @
    (if user_io_status_get c CPAK_OPT \<noteq> 0 then [CPAK, CPAK, CPAK] else [])"
  have pset: "set ps \<subseteq> {CPAK, TPAK}" by (auto simp: ps_def)
  show ?thesis
  proof (cases "get_cart_save_type c = NONE")
    case True
    then have "expected_regions c = ps" by (simp add: expected_regions_def ps_def)
    with assms paks [OF _ pset] True show ?thesis by simp
  next
    case False
    then have e: "expected_regions c = get_cart_save_type c # ps"
      by (simp add: expected_regions_def ps_def)
    show ?thesis
    proof (cases k)
      case 0
      with e False show ?thesis by simp
    next
      case (Suc j)
      with assms e have "j < length ps" by simp
      from paks [OF this pset] e Suc show ?thesis by simp
    qed
  qed
qed
lemma chain_le:
  fixes f g :: "nat \<Rightarrow> int"
  assumes "\<forall>k<n. 0 < g k \<and> f (Suc k) = f k + g k"
  shows "j \<le> k \<Longrightarrow> k \<le> n \<Longrightarrow> f j \<le> f k"
proof (induction k)
  case 0
  then show ?case by simp
next
  case (Suc k)
  show ?case
  proof (cases "j = Suc k")
    case True
    then show ?thesis by simp
  next
    case False
    with Suc have "f j \<le> f k" by simp
    moreover from Suc(3) assms have "0 < g k \<and> f (Suc k) = f k + g k" by simp
    ultimately show ?thesis by simp
  qed
qed

lemma chain_disjoint:
  fixes f g :: "nat \<Rightarrow> int"
  assumes "\<forall>k<n. 0 < g k \<and> f (Suc k) = f k + g k" and "j < k" and "k \<le> n"
  shows "f j + g j \<le> f k"
proof -
  from assms have "f (Suc j) = f j + g j" by simp
  moreover from assms have "f (Suc j) \<le> f k" by (intro chain_le [OF assms(1)]) simp_all
  ultimately show ?thesis by simp
qed

lemma chain_cover:
  fixes f g :: "nat \<Rightarrow> int"
  assumes "\<forall>k<n. 0 < g k \<and> f (Suc k) = f k + g k"
  shows "f 0 \<le> p \<Longrightarrow> p < f n \<Longrightarrow> \<exists>k<n. f k \<le> p \<and> p < f k + g k"
  using assms
proof (induction n)
  case 0
  then show ?case by simp
next
  case (Suc n)
  show ?case
  proof (cases "p < f n")
    case True
    with Suc obtain k where "k < n" "f k \<le> p \<and> p < f k + g k" by auto
    then show ?thesis using less_Suc_eq by blast
  next
    case False
    moreover from Suc(4) have "f (Suc n) = f n + g n" by simp
    ultimately have "f n \<le> p \<and> p < f n + g n" using Suc(3) by simp
    then show ?thesis by blast
  qed
qed

lemma chain_unique:
  fixes f g :: "nat \<Rightarrow> int"
  assumes "\<forall>k<n. 0 < g k \<and> f (Suc k) = f k + g k"
    and "j < n" "f j \<le> p \<and> p < f j + g j"
    and "k < n" "f k \<le> p \<and> p < f k + g k"
  shows "j = k"
proof (rule ccontr)
  assume "j \<noteq> k"
  then consider "j < k" | "k < j" by linarith
  then show False
  proof cases
    case 1
    from chain_disjoint [OF assms(1) 1] assms show ?thesis by simp
  next
    case 2
    from chain_disjoint [OF assms(1) 2] assms show ?thesis by simp
  qed
qed

lemma chain_total:
  fixes f g :: "nat \<Rightarrow> int"
  assumes "\<forall>k<n. 0 < g k \<and> f (Suc k) = f k + g k"
  shows "f n = f 0 + sum_list (map g [0..<n])"
  using assms by (induction n) simp_all

text \<open>Claim C1. After the mount stage has run on an empty registry, the mounted regions
  are, in slot order, the save-type region if one is configured, then the transfer pak or
  the first controller pak, then the remaining controller paks; slot \<open>k\<close> owns the bytes
  from \<open>get_save_file_offset(k)\<close> up to that offset plus the size of its kind, and these
  ranges start at 0, follow each other without gap, are pairwise disjoint, and every
  position below the total size lies in exactly one of them.\<close>

theorem mount_layout_partition:
  assumes "mounted_save_files s1 = 0" and "s = snd (mount_all backing s1)"
  shows "cfg s = cfg s1 \<and>
     unat (mounted_save_files s) = length (expected_regions (cfg s)) \<and>
     (\<forall>k < unat (mounted_save_files s).
        sf_type (save_files s k) = expected_regions (cfg s) ! k \<and>
        sf_idx (save_files s k) = int k) \<and>
     region_start s 0 = 0 \<and>
     (\<forall>k < unat (mounted_save_files s).
        0 < region_size s k \<and> region_start s (Suc k) = region_start s k + region_size s k) \<and>
     (\<forall>j < unat (mounted_save_files s). \<forall>k < unat (mounted_save_files s).
        j < k \<longrightarrow> region_start s j + region_size s j \<le> region_start s k) \<and>
     (\<forall>p. 0 \<le> p \<and> p < region_start s (unat (mounted_save_files s)) \<longrightarrow>
        (\<exists>!k. k < unat (mounted_save_files s) \<and>
               region_start s k \<le> p \<and> p < region_start s k + region_size s k)) \<and>
     region_start s (unat (mounted_save_files s))
        = sum_list (map (region_size s) [0..<unat (mounted_save_files s)])"
proof -
  define n where "n = unat (mounted_save_files s)"
  from mount_all_regions [OF assms(1), of backing] assms(2)
  have c: "cfg s = cfg s1" and len: "n = length (expected_regions (cfg s))"
    and kinds: "\<forall>k < n. sf_type (save_files s k) = expected_regions (cfg s) ! k \<and>
        sf_idx (save_files s k) = int k"
    by (simp_all add: n_def)
  have n5: "n \<le> 5" using len expected_regions_length [of "cfg s"] by simp
  have start0: "region_start s 0 = 0" by (simp add: region_start_closed)
  have chain: "\<forall>k<n. 0 < region_size s k \<and> region_start s (Suc k) = region_start s k + region_size s k"
  proof (intro allI impI)
    fix k assume k: "k < n"
    with len have kl: "k < length (expected_regions (cfg s))" by simp
    from k kinds have "region_size s k = uint (get_save_size (expected_regions (cfg s) ! k))"
      by (simp add: region_size_def)
    with expected_region_size [OF kl]
    have sz: "region_size s k = (if k = 0 \<and> get_cart_save_type (cfg s) \<noteq> NONE
        then uint (get_save_size (get_cart_save_type (cfg s))) else 0x8000)"
      by simp
    from k n5 have k256: "k < 256" "Suc k < 256" by simp_all
    show "0 < region_size s k \<and> region_start s (Suc k) = region_start s k + region_size s k"
      using cart_save_size_pos [of "cfg s"]
      by (simp add: sz region_start_closed [OF k256(1)] region_start_closed [OF k256(2)])
  qed
  have disj: "\<forall>j<n. \<forall>k<n. j < k \<longrightarrow> region_start s j + region_size s j \<le> region_start s k"
    using chain_disjoint [OF chain] by simp
  have part: "\<forall>p. 0 \<le> p \<and> p < region_start s n \<longrightarrow>
        (\<exists>!k. k < n \<and> region_start s k \<le> p \<and> p < region_start s k + region_size s k)"
  proof (intro allI impI)
    fix p assume p: "0 \<le> p \<and> p < region_start s n"
    with chain_cover [OF chain, of p] start0
    obtain k where k: "k < n" "region_start s k \<le> p \<and> p < region_start s k + region_size s k"
      by auto
    show "\<exists>!k. k < n \<and> region_start s k \<le> p \<and> p < region_start s k + region_size s k"
    proof (rule ex1I [of _ k])
      from k show "k < n \<and> region_start s k \<le> p \<and> p < region_start s k + region_size s k"
        by simp
    next
      fix j assume "j < n \<and> region_start s j \<le> p \<and> p < region_start s j + region_size s j"
      with chain_unique [OF chain, of j p k] k show "j = k" by simp
    qed
  qed
  have total: "region_start s n = sum_list (map (region_size s) [0..<n])"
    using chain_total [OF chain] start0 by simp
  from c len kinds start0 chain disj part total show ?thesis
    unfolding n_def by (intro conjI)
qed

text \<open>SRAM, transfer pak and controller paks configured: five regions, and the third starts
  at \<open>0x10000\<close>.\<close>

theorem mount_layout_partition_witness:
  "unat (mounted_save_files (snd (mount_all (\<lambda>i t. (False, None))
      \<lparr>cfg = (\<lambda>_. 0)(SAVE_TYPE_OPT := 3, TPAK_OPT := 1, CPAK_OPT := 1), old_ar = - 1,
       mounted_save_files = 0, save_files = (\<lambda>i. default_SaveFile), images = (\<lambda>_. None)\<rparr>))) = 5 \<and>
   region_start (snd (mount_all (\<lambda>i t. (False, None))
      \<lparr>cfg = (\<lambda>_. 0)(SAVE_TYPE_OPT := 3, TPAK_OPT := 1, CPAK_OPT := 1), old_ar = - 1,
       mounted_save_files = 0, save_files = (\<lambda>i. default_SaveFile), images = (\<lambda>_. None)\<rparr>)) 2 = 0x10000"
proof -
  let ?c = "(\<lambda>_. 0)(SAVE_TYPE_OPT := 3, TPAK_OPT := 1, CPAK_OPT := 1) :: option_store"
  let ?s1 = "\<lparr>cfg = ?c, old_ar = - 1,
       mounted_save_files = 0, save_files = (\<lambda>i. default_SaveFile), images = (\<lambda>_. None)\<rparr>"
  define s where "s = snd (mount_all (\<lambda>i t. (False, None)) ?s1)"
  have h1: "mounted_save_files ?s1 = 0" by simp
  have st: "get_cart_save_type ?c = SRAM_32k"
    by (simp add: get_cart_save_type_def MemoryType_of_u32_def user_io_status_get_def
        SAVE_TYPE_OPT_def TPAK_OPT_def CPAK_OPT_def)
  have ex: "expected_regions ?c = [SRAM_32k, TPAK, CPAK, CPAK, CPAK]"
    by (simp add: expected_regions_def st) (simp add: user_io_status_get_def
        SAVE_TYPE_OPT_def TPAK_OPT_def CPAK_OPT_def)
  note t = mount_layout_partition [OF h1 s_def]
  from t have c: "cfg s = ?c" by simp
  from t have n: "unat (mounted_save_files s) = 5" unfolding c ex by simp
  from t have kinds: "\<forall>k < unat (mounted_save_files s).
        sf_type (save_files s k) = expected_regions (cfg s) ! k \<and> sf_idx (save_files s k) = int k"
    by blast
  from t have chain: "\<forall>k < unat (mounted_save_files s).
        0 < region_size s k \<and> region_start s (Suc k) = region_start s k + region_size s k"
    by blast
  from t have z: "region_start s 0 = 0" by blast
  from kinds have k0: "sf_type (save_files s 0) = SRAM_32k" and k1: "sf_type (save_files s 1) = TPAK"
    unfolding n c ex by simp_all
  from chain have "region_start s (Suc 0) = region_start s 0 + region_size s 0"
    and "region_start s (Suc (Suc 0)) = region_start s (Suc 0) + region_size s (Suc 0)"
    unfolding n by simp_all
  with z k0 k1 have "region_start s (Suc (Suc 0)) = 0x10000"
    by (simp add: region_size_def)
  then have "region_start s 2 = 0x10000" by (simp add: numeral_2_eq_2)
  with n show ?thesis unfolding s_def by simp
qed

subsection \<open>The registry after detection\<close>

lemma apply_wide_mounted: "mounted_save_files (apply_wide w s) = mounted_save_files s"
  by (simp add: apply_wide_def Let_def)

lemma parse_and_apply_db_tags_mounted:
  "mounted_save_files (snd (parse_and_apply_db_tags tags s)) = mounted_save_files s"
  by (simp add: parse_and_apply_db_tags_def Let_def apply_wide_mounted split: option.splits)

lemma db_scan_md5_mounted:
  "mounted_save_files (snd (db_scan_md5 h ls s)) = mounted_save_files s"
  by (induction ls) (simp_all add: case_prod_beta parse_and_apply_db_tags_mounted split: option.splits)

lemma db_scan_cartid_mounted:
  "mounted_save_files (snd (db_scan_cartid behind cid ls s)) = mounted_save_files s"
  by (induction ls)
    (simp_all add: Let_def case_prod_beta parse_and_apply_db_tags_mounted split: option.splits)

lemma first_detected_mounted:
  assumes "\<And>n s. mounted_save_files (snd (f n s)) = mounted_save_files s"
  shows "mounted_save_files (snd (first_detected f ns s)) = mounted_save_files s"
  using assms by (induction ns arbitrary: s) (simp_all add: case_prod_beta Let_def)

lemma dbs_md5_mounted:
  "mounted_save_files (snd (detect_rom_settings_in_dbs_with_md5 dbs h s)) = mounted_save_files s"
  unfolding detect_rom_settings_in_dbs_with_md5_def
  by (rule first_detected_mounted)
    (simp add: detect_rom_settings_in_db_def db_scan_md5_mounted split: option.splits)

lemma dbs_cartid_mounted:
  "mounted_save_files (snd (detect_rom_settings_in_dbs_with_cartid behind dbs cid s))
     = mounted_save_files s"
proof (cases "list_all isalnum (take CARTID_LENGTH cid)")
  case True
  have "mounted_save_files (snd (first_detected
      (detect_rom_settings_in_db_with_cartid behind dbs cid) DB_FILE_NAMES s)) = mounted_save_files s"
    by (rule first_detected_mounted)
      (simp add: detect_rom_settings_in_db_with_cartid_def db_scan_cartid_mounted split: option.splits)
  with True show ?thesis by (simp add: detect_rom_settings_in_dbs_with_cartid_def)
next
  case False
  then show ?thesis by (simp add: detect_rom_settings_in_dbs_with_cartid_def)
qed

lemma homebrew_mounted:
  "mounted_save_files (snd (detect_homebrew_header cs cid s)) = mounted_save_files s"
  by (simp add: detect_homebrew_header_def Let_def)

lemma first_chunk_mounted:
  "mounted_save_files (snd (detect_rom_settings_from_first_chunk rc sg s)) = mounted_save_files s"
  by (simp add: detect_rom_settings_from_first_chunk_def case_prod_beta)

lemma resolve_mounted:
  "mounted_save_files (snd (resolve_after_stream behind dbs h info d s)) = mounted_save_files s"
  unfolding resolve_after_stream_def
  by (simp add: case_prod_beta Let_def dbs_md5_mounted dbs_cartid_mounted homebrew_mounted
      first_chunk_mounted)

lemma resolve_mounted_pair:
  assumes "resolve_after_stream behind dbs h info d s = (a, b)"
  shows "mounted_save_files b = mounted_save_files s"
  using resolve_mounted [of behind dbs h info d s] assms by simp

text \<open>The detection stage of \<open>n64_rom_tx\<close> ends with an empty registry: the mount stage
  that follows it starts from no mounted region.\<close>

lemma detect_mounted:
  assumes "n64_rom_tx_detect md5_hex behind dbs rom s = Some (d, s1)"
  shows "mounted_save_files s1 = 0"
proof -
  have u: "mounted_save_files (unmount_all_save_files s) = 0"
    by (simp add: unmount_all_save_files_def)
  from assms show ?thesis
    unfolding n64_rom_tx_detect_def
    by (auto simp: Let_def case_prod_beta dbs_md5_mounted u dest!: resolve_mounted_pair
        split: list.splits option.splits if_splits)
qed


subsection \<open>Detection with auto-detection disabled\<close>

text \<open>Claim C9. With auto-detection disabled, none of the three detection paths (tag
  interpretation, homebrew header, boot-chip signature heuristic) writes to the
  configuration: each returns the state it was given, so every option keeps its value.\<close>

theorem no_writes_when_auto_off:
  assumes "\<not> is_auto (cfg s)"
  shows "snd (parse_and_apply_db_tags tags s) = s \<and>
         snd (detect_homebrew_header cs cid s) = s \<and>
         snd (detect_rom_settings_from_first_chunk region_code signatures s) = s"
proof -
  have a: "snd (parse_and_apply_db_tags tags s) = s"
    using assms by (cases tags) (simp_all add: parse_and_apply_db_tags_def Let_def)
  have b: "snd (detect_homebrew_header cs cid s) = s"
    using assms by (simp add: detect_homebrew_header_def)
  have c: "snd (detect_rom_settings_from_first_chunk region_code signatures s) = s"
    using assms by (simp add: detect_rom_settings_from_first_chunk_def case_prod_beta)
  from a b c show ?thesis by (intro conjI)
qed

text \<open>A state with the auto-detect option set to off.\<close>

theorem no_writes_when_auto_off_witness:
  "snd (parse_and_apply_db_tags (Some ''sram32k|cpak'')
      \<lparr>cfg = (\<lambda>_. 0)(AUTODETECT_OPT := 1), old_ar = - 1, mounted_save_files = 0,
       save_files = (\<lambda>i. default_SaveFile), images = (\<lambda>_. None)\<rparr>) =
      \<lparr>cfg = (\<lambda>_. 0)(AUTODETECT_OPT := 1), old_ar = - 1, mounted_save_files = 0,
       save_files = (\<lambda>i. default_SaveFile), images = (\<lambda>_. None)\<rparr> \<and>
   snd (detect_homebrew_header [1, 0, 0, 0] ''NEDE10''
      \<lparr>cfg = (\<lambda>_. 0)(AUTODETECT_OPT := 1), old_ar = - 1, mounted_save_files = 0,
       save_files = (\<lambda>i. default_SaveFile), images = (\<lambda>_. None)\<rparr>) =
      \<lparr>cfg = (\<lambda>_. 0)(AUTODETECT_OPT := 1), old_ar = - 1, mounted_save_files = 0,
       save_files = (\<lambda>i. default_SaveFile), images = (\<lambda>_. None)\<rparr> \<and>
   snd (detect_rom_settings_from_first_chunk (CHR ''E'') [0xa316adc55a, 0]
      \<lparr>cfg = (\<lambda>_. 0)(AUTODETECT_OPT := 1), old_ar = - 1, mounted_save_files = 0,
       save_files = (\<lambda>i. default_SaveFile), images = (\<lambda>_. None)\<rparr>) =
      \<lparr>cfg = (\<lambda>_. 0)(AUTODETECT_OPT := 1), old_ar = - 1, mounted_save_files = 0,
       save_files = (\<lambda>i. default_SaveFile), images = (\<lambda>_. None)\<rparr>"
proof -
  have "\<not> is_auto (cfg \<lparr>cfg = (\<lambda>_. 0)(AUTODETECT_OPT := 1), old_ar = - 1, mounted_save_files = 0,
       save_files = (\<lambda>i. default_SaveFile), images = (\<lambda>_. None)\<rparr>)"
    by (simp add: is_auto_def user_io_status_get_def)
  then show ?thesis by (rule no_writes_when_auto_off)
qed

subsection \<open>Wide-display save and restore\<close>

lemma write_tag_options_keeps:
  "write_tag_options t sys c AR_TYPE_OPT = c AR_TYPE_OPT \<and>
   write_tag_options t sys c AUTODETECT_OPT = c AUTODETECT_OPT"
  by (simp add: write_tag_options_def Let_def user_io_status_set_def user_io_status_get_def
      set_cart_save_type_def
      AR_TYPE_OPT_def AUTODETECT_OPT_def CIC_TYPE_OPT_def NO_EPAK_OPT_def
      CPAK_OPT_def RPAK_OPT_def TPAK_OPT_def RTC_OPT_def SAVE_TYPE_OPT_def SYS_TYPE_OPT_def
      CONTROLLER_OPTS_def)

lemma apply_tags_auto:
  assumes "is_auto (cfg s)"
  shows "apply_tags tags s =
    apply_wide (wide (parse_tags tags))
      (s\<lparr>cfg := write_tag_options (parse_tags tags)
          (if system_type (parse_tags tags) = SystemType_UNKNOWN \<and> cic_type (parse_tags tags) \<noteq> CIC_UNKNOWN
           then NTSC else system_type (parse_tags tags)) (cfg s)\<rparr>)"
  using assms by (simp add: apply_tags_def parse_and_apply_db_tags_def Let_def)

lemma apply_tags_ar:
  assumes "is_auto (cfg s)"
  shows "is_auto (cfg (apply_tags tags s)) \<and>
    current_ar (apply_tags tags s) =
      (if wide (parse_tags tags) then u32_of_AspectRatio FULL
       else if current_ar s = u32_of_AspectRatio FULL \<and> old_ar s \<noteq> u32_of_AspectRatio AspectRatio_UNKNOWN
       then old_ar s else current_ar s) \<and>
    old_ar (apply_tags tags s) =
      (if wide (parse_tags tags)
       then (if current_ar s \<noteq> u32_of_AspectRatio FULL then current_ar s else old_ar s)
       else if current_ar s = u32_of_AspectRatio FULL \<and> old_ar s \<noteq> u32_of_AspectRatio AspectRatio_UNKNOWN
       then u32_of_AspectRatio AspectRatio_UNKNOWN else old_ar s)"
proof -
  define c where "c = write_tag_options (parse_tags tags)
          (if system_type (parse_tags tags) = SystemType_UNKNOWN \<and> cic_type (parse_tags tags) \<noteq> CIC_UNKNOWN
           then NTSC else system_type (parse_tags tags)) (cfg s)"
  have k: "c AR_TYPE_OPT = cfg s AR_TYPE_OPT" "c AUTODETECT_OPT = cfg s AUTODETECT_OPT"
    using write_tag_options_keeps by (simp_all add: c_def)
  have ne: "AR_TYPE_OPT \<noteq> AUTODETECT_OPT" by (simp add: AR_TYPE_OPT_def AUTODETECT_OPT_def)
  have e: "apply_tags tags s = apply_wide (wide (parse_tags tags)) (s\<lparr>cfg := c\<rparr>)"
    unfolding c_def using assms by (rule apply_tags_auto)
  show ?thesis
    unfolding e using assms k ne
    by (simp add: apply_wide_def current_ar_def is_auto_def user_io_status_get_def
        user_io_status_set_def Let_def)
qed
lemma wide_invariant_step:
  assumes "is_auto (cfg s)" and "current_ar s < 4"
    and "old_ar s \<noteq> u32_of_AspectRatio AspectRatio_UNKNOWN \<longrightarrow>
           current_ar s = u32_of_AspectRatio FULL \<and> old_ar s < 4"
  shows "is_auto (cfg (apply_tags t s)) \<and> current_ar (apply_tags t s) < 4 \<and>
    (old_ar (apply_tags t s) \<noteq> u32_of_AspectRatio AspectRatio_UNKNOWN \<longrightarrow>
       current_ar (apply_tags t s) = u32_of_AspectRatio FULL \<and> old_ar (apply_tags t s) < 4)"
proof -
  have one: "(1 :: u32) < 4" by simp
  from apply_tags_ar [OF assms(1), of t] assms(2,3) one show ?thesis
    by (cases "wide (parse_tags t)") auto
qed

lemma wide_invariant_fold:
  assumes "is_auto (cfg s)" and "current_ar s < 4"
    and "old_ar s \<noteq> u32_of_AspectRatio AspectRatio_UNKNOWN \<longrightarrow>
           current_ar s = u32_of_AspectRatio FULL \<and> old_ar s < 4"
  shows "is_auto (cfg (fold apply_tags ts s)) \<and> current_ar (fold apply_tags ts s) < 4 \<and>
    (old_ar (fold apply_tags ts s) \<noteq> u32_of_AspectRatio AspectRatio_UNKNOWN \<longrightarrow>
       current_ar (fold apply_tags ts s) = u32_of_AspectRatio FULL \<and> old_ar (fold apply_tags ts s) < 4)"
  using assms
proof (induction ts arbitrary: s)
  case Nil
  then show ?case by simp
next
  case (Cons t ts)
  from wide_invariant_step [OF Cons(2) Cons(3) Cons(4), of t]
  have "is_auto (cfg (apply_tags t s))" "current_ar (apply_tags t s) < 4"
    "old_ar (apply_tags t s) \<noteq> u32_of_AspectRatio AspectRatio_UNKNOWN \<longrightarrow>
       current_ar (apply_tags t s) = u32_of_AspectRatio FULL \<and> old_ar (apply_tags t s) < 4"
    by simp_all
  from Cons(1) [OF this] show ?case by simp
qed

text \<open>Claim C10. In every state reached from the initial one (\<open>old_ar\<close> unknown, the
  aspect-ratio option holding one of its four values, auto-detection on) by any sequence
  of tag applications: a wide-on while the ratio is not "full" saves the ratio and sets
  "full"; a second wide-on right after changes neither the ratio nor the saved slot; a
  wide-off with nothing saved leaves both as they are; a wide-off with a saved ratio
  restores it and clears the slot.\<close>

theorem wide_toggle_idempotent:
  assumes auto: "is_auto (cfg s0)"
    and init: "old_ar s0 = u32_of_AspectRatio AspectRatio_UNKNOWN"
    and ar: "current_ar s0 < 4"
    and s: "s = fold apply_tags ts s0"
    and on: "wide (parse_tags t_on)" and on': "wide (parse_tags t_on')"
    and off: "\<not> wide (parse_tags t_off)"
  shows "(current_ar s \<noteq> u32_of_AspectRatio FULL \<longrightarrow> old_ar (apply_tags t_on s) = current_ar s) \<and>
    current_ar (apply_tags t_on s) = u32_of_AspectRatio FULL \<and>
    current_ar (apply_tags t_on' (apply_tags t_on s)) = current_ar (apply_tags t_on s) \<and>
    old_ar (apply_tags t_on' (apply_tags t_on s)) = old_ar (apply_tags t_on s) \<and>
    (old_ar s = u32_of_AspectRatio AspectRatio_UNKNOWN \<longrightarrow>
       current_ar (apply_tags t_off s) = current_ar s \<and>
       old_ar (apply_tags t_off s) = u32_of_AspectRatio AspectRatio_UNKNOWN) \<and>
    (old_ar s \<noteq> u32_of_AspectRatio AspectRatio_UNKNOWN \<longrightarrow>
       current_ar (apply_tags t_off s) = old_ar s \<and>
       old_ar (apply_tags t_off s) = u32_of_AspectRatio AspectRatio_UNKNOWN)"
proof -
  from wide_invariant_fold [OF auto ar, of ts] init s
  have inv: "is_auto (cfg s)" "current_ar s < 4"
    "old_ar s \<noteq> u32_of_AspectRatio AspectRatio_UNKNOWN \<longrightarrow>
       current_ar s = u32_of_AspectRatio FULL \<and> old_ar s < 4"
    by simp_all
  note a1 = apply_tags_ar [OF inv(1), of t_on]
  from a1 have auto1: "is_auto (cfg (apply_tags t_on s))" by simp
  note a2 = apply_tags_ar [OF auto1, of t_on']
  note a3 = apply_tags_ar [OF inv(1), of t_off]
  from a1 on have p1: "current_ar s \<noteq> u32_of_AspectRatio FULL \<longrightarrow> old_ar (apply_tags t_on s) = current_ar s"
    and p2: "current_ar (apply_tags t_on s) = u32_of_AspectRatio FULL"
    by simp_all
  from a2 on' p2 have p3: "current_ar (apply_tags t_on' (apply_tags t_on s)) = current_ar (apply_tags t_on s)"
    and p4: "old_ar (apply_tags t_on' (apply_tags t_on s)) = old_ar (apply_tags t_on s)"
    by simp_all
  from a3 off have p5: "old_ar s = u32_of_AspectRatio AspectRatio_UNKNOWN \<longrightarrow>
       current_ar (apply_tags t_off s) = current_ar s \<and>
       old_ar (apply_tags t_off s) = u32_of_AspectRatio AspectRatio_UNKNOWN"
    by simp
  from a3 off inv(3) have p6: "old_ar s \<noteq> u32_of_AspectRatio AspectRatio_UNKNOWN \<longrightarrow>
       current_ar (apply_tags t_off s) = old_ar s \<and>
       old_ar (apply_tags t_off s) = u32_of_AspectRatio AspectRatio_UNKNOWN"
    by simp
  from p1 p2 p3 p4 p5 p6 show ?thesis by (intro conjI)
qed

text \<open>Ratio \<open>CUSTOM_1\<close>, a wide-on and then a wide-off: the ratio is \<open>CUSTOM_1\<close> again and
  the slot is empty.\<close>

theorem wide_toggle_idempotent_witness:
  "current_ar (apply_tags ''cpak'' (apply_tags ''wide''
      \<lparr>cfg = (\<lambda>_. 0)(AR_TYPE_OPT := 2), old_ar = - 1, mounted_save_files = 0,
       save_files = (\<lambda>i. default_SaveFile), images = (\<lambda>_. None)\<rparr>)) = 2 \<and>
   old_ar (apply_tags ''cpak'' (apply_tags ''wide''
      \<lparr>cfg = (\<lambda>_. 0)(AR_TYPE_OPT := 2), old_ar = - 1, mounted_save_files = 0,
       save_files = (\<lambda>i. default_SaveFile), images = (\<lambda>_. None)\<rparr>)) = - 1"
proof -
  let ?s0 = "\<lparr>cfg = (\<lambda>_. 0)(AR_TYPE_OPT := 2), old_ar = - 1, mounted_save_files = 0,
       save_files = (\<lambda>i. default_SaveFile), images = (\<lambda>_. None)\<rparr>"
  have auto: "is_auto (cfg ?s0)"
    by (simp add: is_auto_def user_io_status_get_def AR_TYPE_OPT_def AUTODETECT_OPT_def)
  have init: "old_ar ?s0 = u32_of_AspectRatio AspectRatio_UNKNOWN" by simp
  have cur: "current_ar ?s0 = 2" by (simp add: current_ar_def user_io_status_get_def)
  have ar: "current_ar ?s0 < 4" unfolding cur by (simp add: word_less_nat_alt)
  have on: "wide (parse_tags ''wide'')"
    by (simp add: parse_tags_def apply_tag_def fnv_hash_def FNV_PRIME_def FNV_OFFSET_BASIS_def
        initial_tag_state_def)
  have off: "\<not> wide (parse_tags ''cpak'')"
    by (simp add: parse_tags_def apply_tag_def fnv_hash_def FNV_PRIME_def FNV_OFFSET_BASIS_def
        initial_tag_state_def)
  have s0: "?s0 = fold apply_tags [] ?s0" by simp
  have s1: "apply_tags ''wide'' ?s0 = fold apply_tags [''wide''] ?s0" by simp
  from wide_toggle_idempotent [OF auto init ar s0 on on off] cur
  have saved: "old_ar (apply_tags ''wide'' ?s0) = 2" by simp
  from wide_toggle_idempotent [OF auto init ar s1 on on off] saved
  show ?thesis by simp
qed

subsection \<open>Knowledge-base lookup\<close>

lemma db_scan_md5_skip:
  assumes "\<forall>l \<in> set pre. \<not> md5_matches l h"
  shows "db_scan_md5 h (pre @ rest) s = db_scan_md5 h rest s"
  using assms by (induction pre) simp_all

lemma db_scan_cartid_skip:
  assumes "\<forall>l \<in> set pre. cart_id_is_match l cid = 0"
  shows "db_scan_cartid behind cid (pre @ rest) s = db_scan_cartid behind cid rest s"
  using assms by (induction pre) (simp_all add: Let_def)

lemma md5_matches_loop_length: "md5_matches_loop n line h \<Longrightarrow> n \<le> length line"
  by (induction n line h rule: md5_matches_loop.induct) (auto split: if_splits)

lemma md5_matches_length: "md5_matches line h \<Longrightarrow> MD5_LENGTH * 2 \<le> length line"
  unfolding md5_matches_def by (rule md5_matches_loop_length)

text \<open>Claim C3, as amended. A line whose key matches the ROM but whose tag field is
  malformed ends the lookup in its file: the lookup returns status 2 and leaves every
  setting as it was; the lines after it are not scanned. This holds for the hash lookup,
  where the tag field always lies within the line, and for the cart-code lookup whenever
  the tag field lies within the line, whatever the memory behind the lines holds.\<close>

theorem malformed_tag_stops_lookup:
  assumes "dbs name = Some (pre @ line # rest)"
  shows "((\<forall>l \<in> set pre. \<not> md5_matches l h) \<and> md5_matches line h \<and>
            scan_tags (drop (MD5_LENGTH * 2) line) = None
          \<longrightarrow> MD5_LENGTH * 2 \<le> length line \<and>
               detect_rom_settings_in_db dbs h name s = (2, s)) \<and>
         ((\<forall>l \<in> set pre. cart_id_is_match l cid = 0) \<and> cart_id_is_match line cid \<noteq> 0 \<and>
            length CARTID_PREFIX + cart_id_is_match line cid \<le> length line \<and>
            scan_tags (drop (length CARTID_PREFIX + cart_id_is_match line cid) line) = None
          \<longrightarrow> detect_rom_settings_in_db_with_cartid behind dbs cid name s = (2, s))"
proof (intro conjI impI)
  assume a: "(\<forall>l \<in> set pre. \<not> md5_matches l h) \<and> md5_matches line h \<and>
            scan_tags (drop (MD5_LENGTH * 2) line) = None"
  then show "MD5_LENGTH * 2 \<le> length line" by (intro md5_matches_length [of line h]) simp
  from a assms show "detect_rom_settings_in_db dbs h name s = (2, s)"
    by (simp add: detect_rom_settings_in_db_def db_scan_md5_skip)
next
  assume b: "(\<forall>l \<in> set pre. cart_id_is_match l cid = 0) \<and> cart_id_is_match line cid \<noteq> 0 \<and>
            length CARTID_PREFIX + cart_id_is_match line cid \<le> length line \<and>
            scan_tags (drop (length CARTID_PREFIX + cart_id_is_match line cid) line) = None"
  then have "string_at behind line (length CARTID_PREFIX + cart_id_is_match line cid)
      = drop (length CARTID_PREFIX + cart_id_is_match line cid) line"
    by (simp add: string_at_def)
  with b assms show "detect_rom_settings_in_db_with_cartid behind dbs cid name s = (2, s)"
    by (simp add: detect_rom_settings_in_db_with_cartid_def db_scan_cartid_skip Let_def)
qed

text \<open>A file whose first line carries the hash and nothing else, and whose second line
  carries the six positions of the cart code and nothing else; the memory behind the
  lines holds a well-formed tag list.\<close>

theorem malformed_tag_stops_lookup_witness:
  "detect_rom_settings_in_db
     ((\<lambda>_. None)(''N64-database.txt'' \<mapsto>
        [''00112233445566778899aabbccddeeff'', ''ID:NSME00'', ''ID:NSME00 sram32k'']))
     ''00112233445566778899aabbccddeeff'' ''N64-database.txt''
     \<lparr>cfg = (\<lambda>_. 0), old_ar = - 1, mounted_save_files = 0,
      save_files = (\<lambda>i. default_SaveFile), images = (\<lambda>_. None)\<rparr>
   = (2, \<lparr>cfg = (\<lambda>_. 0), old_ar = - 1, mounted_save_files = 0,
      save_files = (\<lambda>i. default_SaveFile), images = (\<lambda>_. None)\<rparr>) \<and>
   detect_rom_settings_in_db_with_cartid (\<lambda>line n. '' sram32k|cic6102'')
     ((\<lambda>_. None)(''N64-database.txt'' \<mapsto>
        [''00112233445566778899aabbccddeeff'', ''ID:NSME00'', ''ID:NSME00 sram32k'']))
     ''NSME00'' ''N64-database.txt''
     \<lparr>cfg = (\<lambda>_. 0), old_ar = - 1, mounted_save_files = 0,
      save_files = (\<lambda>i. default_SaveFile), images = (\<lambda>_. None)\<rparr>
   = (2, \<lparr>cfg = (\<lambda>_. 0), old_ar = - 1, mounted_save_files = 0,
      save_files = (\<lambda>i. default_SaveFile), images = (\<lambda>_. None)\<rparr>)"
proof -
  let ?h = "''00112233445566778899aabbccddeeff''"
  let ?dbs = "(\<lambda>_. None)(''N64-database.txt'' \<mapsto> [?h, ''ID:NSME00'', ''ID:NSME00 sram32k'']) :: db_files"
  have d1: "?dbs ''N64-database.txt'' = Some ([] @ ?h # [''ID:NSME00'', ''ID:NSME00 sram32k''])"
    by simp
  have d2: "?dbs ''N64-database.txt'' = Some ([?h] @ ''ID:NSME00'' # [''ID:NSME00 sram32k''])"
    by simp
  have m: "md5_matches ?h ?h" by code_simp
  have t1: "scan_tags (drop (MD5_LENGTH * 2) ?h) = None" by code_simp
  have c0: "cart_id_is_match ?h ''NSME00'' = 0" by code_simp
  have c6: "cart_id_is_match ''ID:NSME00'' ''NSME00'' = 6" by code_simp
  have t2: "scan_tags (drop (length CARTID_PREFIX + 6) ''ID:NSME00'') = None" by code_simp
  have l2: "length CARTID_PREFIX + 6 \<le> length ''ID:NSME00''" by (simp add: CARTID_PREFIX_def)
  from malformed_tag_stops_lookup [where dbs = ?dbs and name = "''N64-database.txt''" and pre = "[]"
      and line = ?h and rest = "[''ID:NSME00'', ''ID:NSME00 sram32k'']" and h = ?h] d1 m t1
  have a: "detect_rom_settings_in_db ?dbs ?h ''N64-database.txt''
     \<lparr>cfg = (\<lambda>_. 0), old_ar = - 1, mounted_save_files = 0,
      save_files = (\<lambda>i. default_SaveFile), images = (\<lambda>_. None)\<rparr>
   = (2, \<lparr>cfg = (\<lambda>_. 0), old_ar = - 1, mounted_save_files = 0,
      save_files = (\<lambda>i. default_SaveFile), images = (\<lambda>_. None)\<rparr>)"
    by simp
  from malformed_tag_stops_lookup [where dbs = ?dbs and name = "''N64-database.txt''" and pre = "[?h]"
      and line = "''ID:NSME00''" and rest = "[''ID:NSME00 sram32k'']" and cid = "''NSME00''"
      and behind = "\<lambda>line n. '' sram32k|cic6102''"] d2 c0 c6 t2 l2
  have b: "detect_rom_settings_in_db_with_cartid (\<lambda>line n. '' sram32k|cic6102'') ?dbs ''NSME00''
     ''N64-database.txt''
     \<lparr>cfg = (\<lambda>_. 0), old_ar = - 1, mounted_save_files = 0,
      save_files = (\<lambda>i. default_SaveFile), images = (\<lambda>_. None)\<rparr>
   = (2, \<lparr>cfg = (\<lambda>_. 0), old_ar = - 1, mounted_save_files = 0,
      save_files = (\<lambda>i. default_SaveFile), images = (\<lambda>_. None)\<rparr>)"
    by simp
  from a b show ?thesis by (rule conjI)
qed

text \<open>Scanning does not continue behind a malformed tag field: with a well-formed line
  for the same hash after the malformed one, the lookup returns 2, while the scan of the
  remaining line returns 3.\<close>

theorem malformed_tag_counterexample:
  "fst (detect_rom_settings_in_db
     ((\<lambda>_. None)(''N64-database.txt'' \<mapsto>
        [''00112233445566778899aabbccddeeff'', ''00112233445566778899aabbccddeeff cic6102'']))
     ''00112233445566778899aabbccddeeff'' ''N64-database.txt''
     \<lparr>cfg = (\<lambda>_. 0), old_ar = - 1, mounted_save_files = 0,
      save_files = (\<lambda>i. default_SaveFile), images = (\<lambda>_. None)\<rparr>) = 2 \<and>
   fst (detect_rom_settings_in_db
     ((\<lambda>_. None)(''N64-database.txt'' \<mapsto>
        [''00112233445566778899aabbccddeeff cic6102'']))
     ''00112233445566778899aabbccddeeff'' ''N64-database.txt''
     \<lparr>cfg = (\<lambda>_. 0), old_ar = - 1, mounted_save_files = 0,
      save_files = (\<lambda>i. default_SaveFile), images = (\<lambda>_. None)\<rparr>) = 3"
proof -
  let ?h = "''00112233445566778899aabbccddeeff''"
  let ?l2 = "''00112233445566778899aabbccddeeff cic6102''"
  let ?s = "\<lparr>cfg = (\<lambda>_. 0), old_ar = - 1, mounted_save_files = 0,
      save_files = (\<lambda>i. default_SaveFile), images = (\<lambda>_. None)\<rparr>"
  have m1: "md5_matches ?h ?h" by code_simp
  have m2: "md5_matches ?l2 ?h" by code_simp
  have t1: "scan_tags (drop (MD5_LENGTH * 2) ?h) = None" by code_simp
  have t2: "scan_tags (drop (MD5_LENGTH * 2) ?l2) = Some ''cic6102''" by code_simp
  have p: "parse_tags ''cic6102'' = initial_tag_state\<lparr>cic_type := CIC_NUS_6102, system_type := NTSC\<rparr>"
    by (simp add: parse_tags_def apply_tag_def fnv_hash_def FNV_PRIME_def FNV_OFFSET_BASIS_def)
  have auto: "is_auto (cfg ?s)" by (simp add: is_auto_def user_io_status_get_def)
  have ok: "fst (parse_and_apply_db_tags (Some ''cic6102'') ?s)"
    using auto by (simp add: parse_and_apply_db_tags_def p Let_def initial_tag_state_def)
  have a: "fst (db_scan_md5 ?h [?h, ?l2] ?s) = 2"
    using m1 t1 by simp
  have b: "fst (db_scan_md5 ?h [?l2] ?s) = 3"
    using m2 t2 ok by (simp add: case_prod_beta)
  from a b show ?thesis by (simp add: detect_rom_settings_in_db_def)
qed

text \<open>Claim C5, at a line that ends before six pattern positions: the pattern \<open>NS\<close> has
  two positions, both equal to the cart code, and no whitespace follows; the function
  returns 6. The same holds for a line that consists of the prefix alone.\<close>

theorem cart_id_short_line_counts_six:
  "cart_id_is_match ''ID:NS'' ''NSME00'' = 6 \<and> cart_id_is_match ''ID:'' ''NSME00'' = 6"
  by code_simp

text \<open>At such a line the cart-code lookup reads the tag field behind the terminator of
  the line: with a well-formed tag list in that memory the lookup returns 3, with an
  empty string there it returns 2.\<close>

lemma short_line_lookup_reads_behind_terminator:
  "fst (detect_rom_settings_in_db_with_cartid (\<lambda>line n. '' cic6102'')
     ((\<lambda>_. None)(''N64-database.txt'' \<mapsto> [''ID:NS'']))
     ''NSME00'' ''N64-database.txt''
     \<lparr>cfg = (\<lambda>_. 0), old_ar = - 1, mounted_save_files = 0,
      save_files = (\<lambda>i. default_SaveFile), images = (\<lambda>_. None)\<rparr>) = 3 \<and>
   fst (detect_rom_settings_in_db_with_cartid (\<lambda>line n. [])
     ((\<lambda>_. None)(''N64-database.txt'' \<mapsto> [''ID:NS'']))
     ''NSME00'' ''N64-database.txt''
     \<lparr>cfg = (\<lambda>_. 0), old_ar = - 1, mounted_save_files = 0,
      save_files = (\<lambda>i. default_SaveFile), images = (\<lambda>_. None)\<rparr>) = 2"
proof -
  let ?s = "\<lparr>cfg = (\<lambda>_. 0), old_ar = - 1, mounted_save_files = 0,
      save_files = (\<lambda>i. default_SaveFile), images = (\<lambda>_. None)\<rparr>"
  have c: "cart_id_is_match ''ID:NS'' ''NSME00'' = 6" by code_simp
  have at: "\<And>behind. string_at behind ''ID:NS'' (length CARTID_PREFIX + 6) = behind ''ID:NS'' 9"
    by (simp add: string_at_def CARTID_PREFIX_def)
  have t1: "scan_tags '' cic6102'' = Some ''cic6102''" by code_simp
  have t2: "scan_tags [] = None" by code_simp
  have p: "parse_tags ''cic6102'' = initial_tag_state\<lparr>cic_type := CIC_NUS_6102, system_type := NTSC\<rparr>"
    by (simp add: parse_tags_def apply_tag_def fnv_hash_def FNV_PRIME_def FNV_OFFSET_BASIS_def)
  have auto: "is_auto (cfg ?s)" by (simp add: is_auto_def user_io_status_get_def)
  have ok: "fst (parse_and_apply_db_tags (Some ''cic6102'') ?s)"
    using auto by (simp add: parse_and_apply_db_tags_def p Let_def initial_tag_state_def)
  have a: "fst (db_scan_cartid (\<lambda>line n. '' cic6102'') ''NSME00'' [''ID:NS''] ?s) = 3"
    using c at t1 ok by (simp add: case_prod_beta Let_def)
  have b: "fst (db_scan_cartid (\<lambda>line n. []) ''NSME00'' [''ID:NS''] ?s) = 2"
    using c at t2 by (simp add: Let_def)
  from a b show ?thesis by (simp add: detect_rom_settings_in_db_with_cartid_def)
qed


subsection \<open>Boot-chip signature heuristic\<close>

lemma u32_words_short: "length xs < 4 \<Longrightarrow> u32_words xs = []"
  by (induction xs rule: u32_words.induct) simp_all

lemma u32_words_drop4: "u32_words (drop 4 xs) = drop 1 (u32_words xs)"
  by (induction xs rule: u32_words.induct) simp_all

lemma u32_words_drop: "u32_words (drop (4 * n) xs) = drop n (u32_words xs)"
proof (induction n arbitrary: xs)
  case 0
  then show ?case by simp
next
  case (Suc n)
  have "drop (4 * Suc n) xs = drop (4 * n) (drop 4 xs)" by (simp add: add.commute)
  then show ?case by (simp add: Suc u32_words_drop4 drop_Suc del: drop_drop)
qed

lemma u32_words_take: "u32_words (take (4 * n) xs) = take n (u32_words xs)"
proof (induction xs arbitrary: n rule: u32_words.induct)
  case (1 b0 b1 b2 b3 rest)
  show ?case
  proof (cases n)
    case 0
    then show ?thesis by simp
  next
    case (Suc m)
    then have "take (4 * n) (b0 # b1 # b2 # b3 # rest) = b0 # b1 # b2 # b3 # take (4 * m) rest"
      by (simp add: take_Cons')
    with 1 [of m] Suc show ?thesis by simp
  qed
qed (simp_all add: u32_words_short)

lemma add_words_append: "add_words s (xs @ ys) = add_words (add_words s xs) ys"
  by (simp add: add_words_def)

lemma calc_bootcode_checksums_ranges:
  "calc_bootcode_checksums buf = [range_sum buf 0x40 0x1000, range_sum buf 0x40 0xc00]"
proof -
  let ?ws = "u32_words buf"
  have a: "u32_words (take (0xc00 - 0x40) (drop 0x40 buf)) = take 752 (drop 16 ?ws)"
    using u32_words_take [of 752 "drop (4 * 16) buf"] u32_words_drop [of 16 buf] by simp
  have b: "u32_words (take (0x1000 - 0x40) (drop 0x40 buf)) = take 1008 (drop 16 ?ws)"
    using u32_words_take [of 1008 "drop (4 * 16) buf"] u32_words_drop [of 16 buf] by simp
  have "take (752 + 256) (drop 16 ?ws) = take 752 (drop 16 ?ws) @ take 256 (drop 752 (drop 16 ?ws))"
    by (rule take_add)
  then have c: "take 1008 (drop 16 ?ws) = take 752 (drop 16 ?ws) @ take 256 (drop 768 ?ws)"
    by simp
  show ?thesis
    unfolding calc_bootcode_checksums_def range_sum_def a b c
    by (simp add: Let_def add_words_append)
qed

lemma cic_loop_first_match: "cic_loop 2 [a, b] sys = first_match [a, b] sys"
  by (simp split: option.splits)

text \<open>Claim C2, as amended. The boot-chip signature heuristic tries the long-range
  checksum (bytes \<open>0x40\<close> to \<open>0x1000\<close> of the first chunk) against the signature table
  first, and the short-range checksum (bytes \<open>0x40\<close> to \<open>0xc00\<close>) only if the long-range
  one matches no entry; this holds for every first chunk, region code and state.\<close>

theorem heuristic_tries_long_sum_first:
  "detect_rom_settings_from_first_chunk region_code (calc_bootcode_checksums buf) s =
    (let (sys, cic, is_known_cic) =
           first_match [range_sum buf 0x40 0x1000, range_sum buf 0x40 0xc00]
             (region_of_code region_code)
     in if \<not> is_auto (cfg s) then (True, s)
        else
          (is_known_cic,
           s\<lparr>cfg := user_io_status_set CIC_TYPE_OPT (u32_of_CIC cic)
                     (user_io_status_set SYS_TYPE_OPT (u32_of_SystemType sys) (cfg s))\<rparr>))"
  unfolding detect_rom_settings_from_first_chunk_def calc_bootcode_checksums_ranges
    cic_loop_first_match ..

lemma u32_words_replicate_mult:
  "u32_words (replicate (4 * n) b @ xs) = replicate n (u32_le b b b b) @ u32_words xs"
proof (induction n)
  case 0
  then show ?case by simp
next
  case (Suc n)
  have "replicate (4 + 4 * n) b = replicate 4 b @ replicate (4 * n) b"
    by (rule replicate_add)
  moreover have "replicate 4 b = [b, b, b, b]"
    by (simp add: eval_nat_numeral)
  ultimately have "replicate (4 * Suc n) b = b # b # b # b # replicate (4 * n) b"
    by simp
  then show ?case by (simp add: Suc)
qed

lemma u32_words_replicate:
  assumes "4 dvd m"
  shows "u32_words (replicate m b @ xs) = replicate (m div 4) (u32_le b b b b) @ u32_words xs"
proof -
  from assms obtain n where "m = 4 * n" by (auto simp: dvd_def)
  then show ?thesis by (simp add: u32_words_replicate_mult)
qed

lemma add_words_replicate: "add_words s (replicate n w) = s + of_nat n * ucast w"
  by (induction n arbitrary: s) (simp_all add: add_words_def algebra_simps)

lemma add_words_Cons: "add_words s (w # ws) = add_words (s + ucast w) ws"
  by (simp add: add_words_def)

lemma add_words_Nil: "add_words s [] = s"
  by (simp add: add_words_def)
text \<open>The short-range sum is not tried first: on a first chunk whose short-range sum is the CIC-5101
  signature and whose long-range sum is the CIC-6102 signature, trying the short-range sum
  first would name the 5101, and the heuristic writes the 6102.\<close>

theorem short_sum_first_counterexample:
  "fst (snd (first_match
      [range_sum (replicate 64 0 @ replicate 516 0xFF @ [0xa7, 0x03, 0x47, 0xce] @ replicate 2488 0 @
                  replicate 132 0xFF @ [0x55, 0xC2, 0x66, 0x48] @ replicate 888 0) 0x40 0xc00,
       range_sum (replicate 64 0 @ replicate 516 0xFF @ [0xa7, 0x03, 0x47, 0xce] @ replicate 2488 0 @
                  replicate 132 0xFF @ [0x55, 0xC2, 0x66, 0x48] @ replicate 888 0) 0x40 0x1000]
      (region_of_code (CHR ''E'')))) = CIC_NUS_5101 \<and>
   user_io_status_get (cfg (snd (detect_rom_settings_from_first_chunk (CHR ''E'')
      (calc_bootcode_checksums
         (replicate 64 0 @ replicate 516 0xFF @ [0xa7, 0x03, 0x47, 0xce] @ replicate 2488 0 @
          replicate 132 0xFF @ [0x55, 0xC2, 0x66, 0x48] @ replicate 888 0))
      \<lparr>cfg = (\<lambda>_. 0), old_ar = - 1, mounted_save_files = 0,
       save_files = (\<lambda>i. default_SaveFile), images = (\<lambda>_. None)\<rparr>))) CIC_TYPE_OPT
     = u32_of_CIC CIC_NUS_6102"
proof -
  let ?chunk = "replicate 64 0 @ replicate 516 0xFF @ [0xa7, 0x03, 0x47, 0xce] @ replicate 2488 0 @
                  replicate 132 0xFF @ [0x55, 0xC2, 0x66, 0x48] @ replicate 888 (0::byte)"
  have ff: "u32_le 0xFF 0xFF 0xFF 0xFF = 0xFFFFFFFF" by (simp add: u32_le_def)
  have zz: "u32_le 0 0 0 0 = 0" by (simp add: u32_le_def)
  have w1: "u32_le 0xa7 0x03 0x47 0xce = 0xce4703a7" by (simp add: u32_le_def)
  have w2: "u32_le 0x55 0xC2 0x66 0x48 = 0x4866C255" by (simp add: u32_le_def)
  have short: "range_sum ?chunk 0x40 0xc00 = 0x81ce470326"
    using u32_words_replicate [of 2488 0 "[]"]
    by (simp add: range_sum_def u32_words_replicate ff zz w1 add_words_append add_words_replicate
        add_words_Cons add_words_Nil)
  have long: "range_sum ?chunk 0x40 0x1000 = 0xa316adc55a"
    using u32_words_replicate [of 888 0 "[]"]
    by (simp add: range_sum_def u32_words_replicate ff zz w1 w2 add_words_append add_words_replicate
        add_words_Cons add_words_Nil)
  have reg: "region_of_code (CHR ''E'') = NTSC" by (simp add: region_of_code_def)
  have auto: "is_auto (cfg \<lparr>cfg = (\<lambda>_. 0), old_ar = - 1, mounted_save_files = 0,
       save_files = (\<lambda>i. default_SaveFile), images = (\<lambda>_. None)\<rparr>)"
    by (simp add: is_auto_def user_io_status_get_def)
  have a: "first_match [0x81ce470326, 0xa316adc55a] NTSC = (NTSC, CIC_NUS_5101, True)"
    by (simp add: signature_case_def)
  have b: "first_match [0xa316adc55a, 0x81ce470326] NTSC = (NTSC, CIC_NUS_6102, True)"
    by (simp add: signature_case_def)
  show ?thesis
    unfolding detect_rom_settings_from_first_chunk_def calc_bootcode_checksums_ranges
      cic_loop_first_match short long reg
    using auto a b by (simp add: user_io_status_get_def user_io_status_set_def)
qed

subsection \<open>Resolution after a metadata-only match\<close>

lemma cic_loop_known:
  "snd (snd (cic_loop 2 [a, b] sys)) =
     (signature_case a sys \<noteq> None \<or> signature_case b sys \<noteq> None)"
  by (cases "signature_case a sys"; cases "signature_case b sys") auto

text \<open>Claim C4, as amended. When the knowledge-base lookups end with a metadata-only match
  (status 2), the boot-chip signature heuristic runs on the state they left, and the final
  status is 3 if the heuristic returns true and 2 otherwise; the heuristic returns true
  exactly when auto-detection is off or one of the two boot-code checksums has an entry
  in the signature table. For a first chunk the two checksums are the sums over the bytes
  \<open>0x40\<close> to \<open>0x1000\<close> and \<open>0x40\<close> to \<open>0xc00\<close>.\<close>

theorem metadata_match_runs_heuristic:
  assumes "kb_lookup behind dbs md5_hex info detected s = (2, s')"
    and "bootcode_sums info = [long_sum, short_sum]"
  shows "resolve_after_stream behind dbs md5_hex info detected s =
           (if fst (detect_rom_settings_from_first_chunk (cart_id info ! 3) (bootcode_sums info) s')
            then 3 else 2,
            snd (detect_rom_settings_from_first_chunk (cart_id info ! 3) (bootcode_sums info) s')) \<and>
         (fst (detect_rom_settings_from_first_chunk (cart_id info ! 3) (bootcode_sums info) s') =
            (\<not> is_auto (cfg s') \<or>
             signature_case long_sum (region_of_code (cart_id info ! 3)) \<noteq> None \<or>
             signature_case short_sum (region_of_code (cart_id info ! 3)) \<noteq> None)) \<and>
         bootcode_sums (first_chunk_info_of buf) =
           [range_sum buf 0x40 0x1000, range_sum buf 0x40 0xc00]"
proof -
  let ?H = "detect_rom_settings_from_first_chunk (cart_id info ! 3) (bootcode_sums info) s'"
  have "fst ?H = (\<not> is_auto (cfg s') \<or>
             snd (snd (cic_loop 2 [long_sum, short_sum] (region_of_code (cart_id info ! 3)))))"
    by (simp add: detect_rom_settings_from_first_chunk_def case_prod_beta assms(2))
  then have second: "fst ?H = (\<not> is_auto (cfg s') \<or>
             signature_case long_sum (region_of_code (cart_id info ! 3)) \<noteq> None \<or>
             signature_case short_sum (region_of_code (cart_id info ! 3)) \<noteq> None)"
    by (simp only: cic_loop_known)
  have third: "bootcode_sums (first_chunk_info_of buf) =
           [range_sum buf 0x40 0x1000, range_sum buf 0x40 0xc00]"
    by (simp add: first_chunk_info_of_def calc_bootcode_checksums_ranges)
  obtain d1 s1 where m: "(if detected = 0 then detect_rom_settings_in_dbs_with_md5 dbs md5_hex s
                     else (detected, s)) = (d1, s1)"
    by (cases "if detected = 0 then detect_rom_settings_in_dbs_with_md5 dbs md5_hex s
                     else (detected, s)") auto
  have first: "resolve_after_stream behind dbs md5_hex info detected s
      = (if fst ?H then 3 else 2, snd ?H)"
  proof (cases "d1 = 0")
    case True
    with assms(1) m
    have c: "detect_rom_settings_in_dbs_with_cartid behind dbs (cart_id info) s1 = (2, s')"
      by (simp add: kb_lookup_def)
    show ?thesis
      unfolding resolve_after_stream_def m using True c
      by (simp add: case_prod_beta)
  next
    case False
    with assms(1) m have "d1 = 2" "s1 = s'" by (simp_all add: kb_lookup_def)
    then show ?thesis
      unfolding resolve_after_stream_def m
      by (simp add: case_prod_beta)
  qed
  from first second third show ?thesis by (intro conjI)
qed

text \<open>A header-hash match with status 2 and a long-range sum that is the CIC-6102
  signature: the outcome is 3.\<close>

theorem metadata_match_runs_heuristic_witness:
  "fst (resolve_after_stream (\<lambda>line n. []) (\<lambda>_. None) []
      \<lparr>controller_settings = [0, 0, 0, 0], bootcode_sums = [0xa316adc55a, 0], cart_id = ''NSME00''\<rparr>
      2
      \<lparr>cfg = (\<lambda>_. 0), old_ar = - 1, mounted_save_files = 0,
       save_files = (\<lambda>i. default_SaveFile), images = (\<lambda>_. None)\<rparr>) = 3"
proof -
  let ?info = "\<lparr>controller_settings = [0, 0, 0, 0], bootcode_sums = [0xa316adc55a, 0],
      cart_id = ''NSME00''\<rparr>"
  let ?s = "\<lparr>cfg = (\<lambda>_. 0), old_ar = - 1, mounted_save_files = 0,
       save_files = (\<lambda>i. default_SaveFile), images = (\<lambda>_. None)\<rparr>"
  have kb: "kb_lookup (\<lambda>line n. []) (\<lambda>_. None) [] ?info 2 ?s = (2, ?s)"
    by (simp add: kb_lookup_def)
  have sums: "bootcode_sums ?info = [0xa316adc55a, 0]" by simp
  have known: "signature_case 0xa316adc55a (region_of_code (cart_id ?info ! 3)) \<noteq> None"
    by (simp add: signature_case_def)
  from metadata_match_runs_heuristic [OF kb sums] known show ?thesis
    by simp
qed

lemma replicate_4096_Cons: "replicate 4096 (0::byte) = 0 # 0 # 0 # 0 # replicate 4092 0"
proof -
  have "replicate (4 + 4092) (0::byte) = replicate 4 0 @ replicate 4092 0"
    by (rule replicate_add)
  moreover have "replicate 4 (0::byte) = [0, 0, 0, 0]"
    by (simp add: eval_nat_numeral)
  ultimately show ?thesis by simp
qed

text \<open>Status 3 without a resolved chip: with auto-detection off, a matching line with a malformed tag
  field (status 2) and a boot code of zeros, the outcome is 3 although neither checksum
  matches a signature and the chip counts as unknown.\<close>

theorem metadata_match_auto_off_counterexample:
  "fst (detect_rom_settings_in_dbs_with_md5
          ((\<lambda>_. None)(''N64-database.txt'' \<mapsto> [''00112233445566778899aabbccddeeff'']))
          ''00112233445566778899aabbccddeeff''
          (unmount_all_save_files
            \<lparr>cfg = (\<lambda>_. 0)(AUTODETECT_OPT := 1), old_ar = - 1, mounted_save_files = 0,
             save_files = (\<lambda>i. default_SaveFile), images = (\<lambda>_. None)\<rparr>)) = 2 \<and>
   map_option fst (n64_rom_tx_detect (\<lambda>_. ''00112233445566778899aabbccddeeff'') (\<lambda>line n. [])
          ((\<lambda>_. None)(''N64-database.txt'' \<mapsto> [''00112233445566778899aabbccddeeff'']))
          (replicate 4096 0)
          \<lparr>cfg = (\<lambda>_. 0)(AUTODETECT_OPT := 1), old_ar = - 1, mounted_save_files = 0,
           save_files = (\<lambda>i. default_SaveFile), images = (\<lambda>_. None)\<rparr>) = Some 3 \<and>
   \<not> snd (snd (cic_loop 2 (calc_bootcode_checksums (replicate 4096 0))
          (region_of_code (make_cart_id (replicate 4096 0) ! 3))))"
proof -
  let ?h = "''00112233445566778899aabbccddeeff''"
  let ?dbs = "(\<lambda>_. None)(''N64-database.txt'' \<mapsto> [?h]) :: db_files"
  let ?s = "\<lparr>cfg = (\<lambda>_. 0)(AUTODETECT_OPT := 1), old_ar = - 1, mounted_save_files = 0,
             save_files = (\<lambda>i. default_SaveFile), images = (\<lambda>_. None)\<rparr>"
  let ?rom = "replicate 4096 (0::byte)"
  define s0 where "s0 = unmount_all_save_files ?s"
  have off: "\<not> is_auto (cfg s0)"
    by (simp add: s0_def unmount_all_save_files_def is_auto_def user_io_status_get_def)
  have m: "md5_matches ?h ?h" by code_simp
  have t: "scan_tags (drop (MD5_LENGTH * 2) ?h) = None" by code_simp
  have scan: "db_scan_md5 ?h [?h] s0 = (2, s0)" using m t by simp
  have look: "detect_rom_settings_in_dbs_with_md5 ?dbs ?h s0 = (2, s0)"
    using scan
    by (simp add: detect_rom_settings_in_dbs_with_md5_def DB_FILE_NAMES_def
        detect_rom_settings_in_db_def)
  have chunks: "rom_chunks ?rom = [?rom]"
    by (rule rom_chunks_single) simp_all
  have fmt: "detectRomFormat ?rom = Some DataFormat_UNKNOWN"
    unfolding replicate_4096_Cons by (simp add: classify_word_def u32_le_def)
  have norm: "normalizeData ?rom (of_nat (length ?rom)) DataFormat_UNKNOWN = ?rom"
    by (simp add: normalizeData_def)
  have res: "resolve_after_stream (\<lambda>line n. []) ?dbs ?h (first_chunk_info_of ?rom) 2 s0 = (3, s0)"
    using off
    by (simp add: resolve_after_stream_def detect_rom_settings_from_first_chunk_def case_prod_beta)
  have det: "n64_rom_tx_detect (\<lambda>_. ?h) (\<lambda>line n. []) ?dbs ?rom ?s = Some (3, s0)"
    unfolding n64_rom_tx_detect_def chunks
    using fmt norm look res
    by (simp add: Let_def flip: s0_def)
  have zz: "u32_le 0 0 0 0 = 0" by (simp add: u32_le_def)
  have w: "u32_words (replicate 4032 (0::byte) @ []) = replicate 1008 0 @ u32_words []"
    using u32_words_replicate [of 4032 0 "[]"] by (simp add: zz)
  have w': "u32_words (replicate 3008 (0::byte) @ []) = replicate 752 0 @ u32_words []"
    using u32_words_replicate [of 3008 0 "[]"] by (simp add: zz)
  have long: "range_sum ?rom 0x40 0x1000 = 0"
    using w by (simp add: range_sum_def add_words_replicate)
  have short: "range_sum ?rom 0x40 0xc00 = 0"
    using w' by (simp add: range_sum_def add_words_replicate)
  have unknown: "\<not> snd (snd (cic_loop 2 (calc_bootcode_checksums ?rom)
          (region_of_code (make_cart_id ?rom ! 3))))"
    unfolding calc_bootcode_checksums_ranges long short
    by (simp add: signature_case_def)
  from look det unknown show ?thesis
    unfolding s0_def by simp
qed

end
